theory Spec2Isabelle
  imports Complex_Main "HOL-Library.Multiset" "HOL-Library.Log_Nat"
begin

section \<open>The dapp transfer list: display order and row amounts\<close>

text \<open>
  The development follows \<^verbatim>\<open>src/components/dapps/DappTransferInitial.tsx\<close>: the two
  module-level functions \<^verbatim>\<open>sortTransactions\<close> and \<^verbatim>\<open>getTransactionCostForSorting\<close>, and
  the amount text computed by the closure \<^verbatim>\<open>renderTransactionRow\<close>.

  A \<^verbatim>\<open>bigint\<close> is an \<^typ>\<open>int\<close>, an arbitrary-precision decimal of the Big library a
  \<^typ>\<open>rat\<close>, an array index a \<^typ>\<open>nat\<close>. A JavaScript \<^verbatim>\<open>number\<close> is an IEEE 754
  double, modelled below with its rounding, its two infinities and \<^verbatim>\<open>NaN\<close>.
\<close>

subsection \<open>JavaScript numbers\<close>

text \<open>
  A \<^verbatim>\<open>number\<close> is a finite value, an infinity or \<^verbatim>\<open>NaN\<close>. A finite value is kept as the
  rational it denotes. The two zeros are one value here: the code neither divides nor prints
  a number, so nothing it does tells \<^verbatim>\<open>-0\<close> from \<^verbatim>\<open>+0\<close>.
\<close>

datatype number = Finite rat | PosInfinity | NegInfinity | NaN

definition pow2 :: "int \<Rightarrow> rat" where
  "pow2 k = (if 0 \<le> k then 2 ^ nat k else 1 / 2 ^ nat (- k))"

text \<open>
  The binary exponent of a positive rational (the integer part of its logarithm to base
  two), from the bit length of its integer part or, below one, of its reciprocal.
\<close>

definition exponentOf :: "rat \<Rightarrow> int" where
  "exponentOf x =
    (if 1 \<le> x then int (floorlog 2 (nat \<lfloor>x\<rfloor>)) - 1
     else - int (floorlog 2 (nat (\<lceil>1 / x\<rceil> - 1))))"

text \<open>Rounding to the nearest integer, a tie to the even one.\<close>

definition roundHalfEven :: "rat \<Rightarrow> int" where
  "roundHalfEven s =
    (let f = \<lfloor>s\<rfloor>; d = s - of_int f
     in if d < 1 / 2 then f else if 1 / 2 < d then f + 1 else if even f then f else f + 1)"

text \<open>
  A double has 53 significant bits, and no bit below \<open>2^(-1074)\<close>: the exponent of the
  last place of a positive \<open>a\<close>, and \<open>a\<close> in units of that place, rounded.
\<close>

definition ulpExponent :: "rat \<Rightarrow> int" where
  "ulpExponent a = max (exponentOf a - 52) (- 1074)"

definition significand :: "rat \<Rightarrow> int" where
  "significand a = roundHalfEven (a / pow2 (ulpExponent a))"

text \<open>
  The double nearest to a rational (round to nearest, ties to even): what every arithmetic
  operation and every conversion to a \<^verbatim>\<open>number\<close> returns for the exact result. A magnitude
  that rounds to \<open>2^1024\<close> or more overflows to an infinity.
\<close>

definition round64 :: "rat \<Rightarrow> number" where
  "round64 x =
    (if x = 0 then Finite 0
     else
       (let a = \<bar>x\<bar>;
            r = of_int (significand a) * pow2 (ulpExponent a)
        in if pow2 1024 \<le> r then (if 0 < x then PosInfinity else NegInfinity)
           else Finite (if 0 < x then r else - r)))"

definition isNaN :: "number \<Rightarrow> bool" where
  "isNaN a \<longleftrightarrow> a = NaN"

definition fneg :: "number \<Rightarrow> number" where
  "fneg a =
    (case a of
       Finite r \<Rightarrow> Finite (- r)
     | PosInfinity \<Rightarrow> NegInfinity
     | NegInfinity \<Rightarrow> PosInfinity
     | NaN \<Rightarrow> NaN)"

text \<open>The sign of a number that is not \<^verbatim>\<open>NaN\<close>: \<open>-1\<close>, \<open>0\<close> or \<open>1\<close>.\<close>

fun signOf :: "number \<Rightarrow> int" where
  "signOf (Finite x) = (if x = 0 then 0 else if 0 < x then 1 else - 1)"
| "signOf PosInfinity = 1"
| "signOf NegInfinity = - 1"
| "signOf NaN = 0"

text \<open>
  \<^verbatim>\<open>a * b\<close>: the rounded product of finite operands; with an infinity, the infinity of the
  product's sign, and \<^verbatim>\<open>NaN\<close> for zero times an infinity.
\<close>

fun fmul :: "number \<Rightarrow> number \<Rightarrow> number" where
  "fmul (Finite x) (Finite y) = round64 (x * y)"
| "fmul a b =
    (if isNaN a \<or> isNaN b \<or> signOf a * signOf b = 0 then NaN
     else if 0 < signOf a * signOf b then PosInfinity else NegInfinity)"

text \<open>\<^verbatim>\<open>a + b\<close>: the rounded sum; \<^verbatim>\<open>NaN\<close> for the sum of the two infinities.\<close>

fun fadd :: "number \<Rightarrow> number \<Rightarrow> number" where
  "fadd (Finite x) (Finite y) = round64 (x + y)"
| "fadd NaN b = NaN"
| "fadd a NaN = NaN"
| "fadd PosInfinity NegInfinity = NaN"
| "fadd NegInfinity PosInfinity = NaN"
| "fadd PosInfinity b = PosInfinity"
| "fadd NegInfinity b = NegInfinity"
| "fadd a PosInfinity = PosInfinity"
| "fadd a NegInfinity = NegInfinity"

definition fsub :: "number \<Rightarrow> number \<Rightarrow> number" where
  "fsub a b = fadd a (fneg b)"

text \<open>\<^verbatim>\<open>a < b\<close> and \<^verbatim>\<open>a <= b\<close>: false as soon as an operand is \<^verbatim>\<open>NaN\<close>.\<close>

fun fless :: "number \<Rightarrow> number \<Rightarrow> bool" where
  "fless (Finite x) (Finite y) = (x < y)"
| "fless NegInfinity (Finite y) = True"
| "fless NegInfinity PosInfinity = True"
| "fless (Finite x) PosInfinity = True"
| "fless a b = False"

definition fle :: "number \<Rightarrow> number \<Rightarrow> bool" where
  "fle a b \<longleftrightarrow> fless a b \<or> (a = b \<and> \<not> isNaN a)"

text \<open>
  The values that arithmetic returns: a finite one is a multiple of the smallest positive
  double, \<open>2^(-1074)\<close>.
\<close>

definition onGrid :: "rat \<Rightarrow> bool" where
  "onGrid r \<longleftrightarrow> (\<exists>m :: int. r = of_int m * pow2 (- 1074))"

definition isDouble :: "number \<Rightarrow> bool" where
  "isDouble a \<longleftrightarrow> (\<forall>r. a = Finite r \<longrightarrow> onGrid r)"

subsection \<open>Data model\<close>

text \<open>
  Modelled from the spec: the type \<^verbatim>\<open>ApiParsedPayload\<close> is declared in a file that is
  missing from the sources. The spec gives a request exactly one of three payload variants,
  \<^verbatim>\<open>None\<close>, \<^verbatim>\<open>TokenTransfer{slug, amount}\<close> and \<^verbatim>\<open>NftTransfer{...}\<close>; the fields of the
  last one are not listed and stay opaque (the type parameter).
\<close>

datatype 'n ApiParsedPayload =
    NoPayload
  | TokenTransfer string int
  | NftTransfer 'n

text \<open>
  Modelled from the spec: the type guards \<^verbatim>\<open>isTokenTransferPayload\<close> and
  \<^verbatim>\<open>isNftTransferPayload\<close> of \<^verbatim>\<open>util/ton/transfer\<close> are missing from the sources; they
  discriminate the payload variants.
\<close>

fun isTokenTransferPayload :: "'n ApiParsedPayload \<Rightarrow> bool" where
  "isTokenTransferPayload (TokenTransfer s a) = True"
| "isTokenTransferPayload p = False"

fun isNftTransferPayload :: "'n ApiParsedPayload \<Rightarrow> bool" where
  "isNftTransferPayload (NftTransfer n) = True"
| "isNftTransferPayload p = False"

text \<open>
  Modelled from the spec: the interface \<^verbatim>\<open>ApiDappTransfer\<close> is declared in a file that
  is missing from the sources; the fields are those of the spec's Transfer Request.
\<close>

record 'n ApiDappTransfer =
  displayedAmount :: int
  fullFee :: int
  displayedToAddress :: string
  payload :: "'n ApiParsedPayload"
  isScam :: bool

text \<open>\<^verbatim>\<open>interface SortedDappTransfer extends ApiDappTransfer\<close> (lines 52 to 55).\<close>

record 'n SortedDappTransfer = "'n ApiDappTransfer" +
  index :: nat
  sortingCost :: number

text \<open>
  Modelled from the spec: the price entry \<^verbatim>\<open>ApiTokenWithPrice\<close> is declared in a file
  that is missing from the sources; the spec gives it
  \<^verbatim>\<open>{decimals, symbol, quote: {priceUsd}}\<close>, the price a float. The constant \<^verbatim>\<open>TONCOIN\<close> of
  \<^verbatim>\<open>config\<close> is missing as well: the code reads its \<^verbatim>\<open>slug\<close>, \<^verbatim>\<open>decimals\<close> and
  \<^verbatim>\<open>symbol\<close>, and every function below takes it as a parameter.
\<close>

record ApiTokenPrice =
  priceUsd :: number

record ApiToken =
  decimals :: nat
  symbol :: string

record ApiTokenWithPrice = ApiToken +
  quote :: ApiTokenPrice

record NativeToken = ApiToken +
  slug :: string

text \<open>The only exception the code can raise: reading a property of \<^verbatim>\<open>undefined\<close>.\<close>

datatype error = TypeError

subsection \<open>Decimal conversion\<close>

text \<open>
  Modelled from the spec: \<^verbatim>\<open>toBig\<close> of \<^verbatim>\<open>util/decimals\<close> is missing from the sources. The
  spec has it convert a smallest-unit integer to a decimal value using the decimal count;
  that value is exact. \<^verbatim>\<open>toNumber\<close> is the Big library's conversion to a \<^verbatim>\<open>number\<close>: it
  reads the decimal back as a double, which rounds, and overflows for a large value.
\<close>

definition toBig :: "int \<Rightarrow> nat \<Rightarrow> rat" where
  "toBig v d = of_int v / 10 ^ d"

definition toNumber :: "rat \<Rightarrow> number" where
  "toNumber b = round64 b"

subsection \<open>The cost used for sorting (lines 243 to 259)\<close>

definition NFT_FAKE_COST_USD :: number where
  "NFT_FAKE_COST_USD = Finite 1000000000"

text \<open>
  \<^verbatim>\<open>tokensBySlug[TONCOIN.slug].quote\<close> raises a \<^verbatim>\<open>TypeError\<close> when the table has no entry
  for the native coin; \<^verbatim>\<open>tonAmount\<close> is computed before that, and cannot fail. The function
  reads only fields of a request, so it takes any extension of one, a row as well.
\<close>

definition getTransactionCostForSorting ::
  "NativeToken \<Rightarrow> (string \<rightharpoonup> ApiTokenWithPrice) \<Rightarrow> ('n, 'z) ApiDappTransfer_scheme
    \<Rightarrow> error + number" where
  "getTransactionCostForSorting TONCOIN tokensBySlug transaction =
    (let tonAmount =
       toNumber (toBig (displayedAmount transaction + fullFee transaction) (decimals TONCOIN))
     in case tokensBySlug (slug TONCOIN) of
       None \<Rightarrow> Inl TypeError
     | Some ton \<Rightarrow>
        (let cost = fmul (priceUsd (quote ton)) tonAmount
         in if isTokenTransferPayload (payload transaction) then
              (case payload transaction of
                 TokenTransfer tokenSlug amount \<Rightarrow>
                   (case tokensBySlug tokenSlug of
                      Some token \<Rightarrow>
                        Inr (fadd cost
                          (fmul (priceUsd (quote token)) (toNumber (toBig amount (decimals token)))))
                    | None \<Rightarrow> Inr cost)
               | _ \<Rightarrow> Inr cost)
            else if isNftTransferPayload (payload transaction) then
              Inr (fadd cost NFT_FAKE_COST_USD)
            else Inr cost))"

subsection \<open>Sorting (lines 226 to 241)\<close>

text \<open>The object literal \<^verbatim>\<open>{...transaction, index, sortingCost}\<close>.\<close>

definition sortedRow :: "'n ApiDappTransfer \<Rightarrow> nat \<Rightarrow> number \<Rightarrow> 'n SortedDappTransfer" where
  "sortedRow transaction i cost =
    \<lparr>displayedAmount = displayedAmount transaction,
     fullFee = fullFee transaction,
     displayedToAddress = displayedToAddress transaction,
     payload = payload transaction,
     isScam = isScam transaction,
     index = i,
     sortingCost = cost\<rparr>"

text \<open>
  \<^verbatim>\<open>transactions.map((transaction, index) => ...)\<close>, from position \<open>i\<close> on: the callback
  runs on the elements from left to right, and an exception it raises ends the whole call.
\<close>

fun mapRows ::
  "NativeToken \<Rightarrow> (string \<rightharpoonup> ApiTokenWithPrice) \<Rightarrow> nat \<Rightarrow> 'n ApiDappTransfer list
    \<Rightarrow> error + 'n SortedDappTransfer list" where
  "mapRows TONCOIN tokensBySlug i [] = Inr []"
| "mapRows TONCOIN tokensBySlug i (transaction # rest) =
    (case getTransactionCostForSorting TONCOIN tokensBySlug transaction of
       Inl e \<Rightarrow> Inl e
     | Inr cost \<Rightarrow>
        (case mapRows TONCOIN tokensBySlug (Suc i) rest of
           Inl e \<Rightarrow> Inl e
         | Inr rows \<Rightarrow> Inr (sortedRow transaction i cost # rows)))"

text \<open>The comparator of line 240.\<close>

definition compareRows :: "'n SortedDappTransfer \<Rightarrow> 'n SortedDappTransfer \<Rightarrow> number" where
  "compareRows transaction0 transaction1 =
    fsub (sortingCost transaction1) (sortingCost transaction0)"

text \<open>
  \<^verbatim>\<open>Array.prototype.sort\<close> with a comparator. ECMAScript reads the comparator's result
  through \<open>SortCompare\<close>, which takes \<^verbatim>\<open>NaN\<close> for zero, and requires the sort to be stable:
  \<open>a\<close> goes before \<open>b\<close> when the result on \<open>(a, b)\<close> is negative, after it when positive,
  and the two keep their order when it is zero. Insertion from the right end does exactly
  that: an element passes only the elements that the comparator puts strictly before it.
  Where the comparator is not consistent (a cost is \<^verbatim>\<open>NaN\<close>), the standard leaves the order
  to the implementation, and this is one implementation. On a list whose neighbours all
  compare as ties it agrees with V8, which starts by looking for a run of neighbours that
  are already in order and returns such a list unchanged.
\<close>

definition sortCompare :: "number \<Rightarrow> number" where
  "sortCompare v = (if isNaN v then Finite 0 else v)"

fun insertBy :: "('a \<Rightarrow> 'a \<Rightarrow> number) \<Rightarrow> 'a \<Rightarrow> 'a list \<Rightarrow> 'a list" where
  "insertBy cmp a [] = [a]"
| "insertBy cmp a (b # bs) =
    (if fless (Finite 0) (sortCompare (cmp a b)) then b # insertBy cmp a bs else a # b # bs)"

fun arraySort :: "('a \<Rightarrow> 'a \<Rightarrow> number) \<Rightarrow> 'a list \<Rightarrow> 'a list" where
  "arraySort cmp [] = []"
| "arraySort cmp (a # as) = insertBy cmp a (arraySort cmp as)"

text \<open>An absent list is \<open>None\<close>; an array, even an empty one, is truthy.\<close>

definition sortTransactions ::
  "NativeToken \<Rightarrow> (string \<rightharpoonup> ApiTokenWithPrice) \<Rightarrow> 'n ApiDappTransfer list option
    \<Rightarrow> error + 'n SortedDappTransfer list option" where
  "sortTransactions TONCOIN tokensBySlug transactions =
    (case transactions of
       None \<Rightarrow> Inr None
     | Some ts \<Rightarrow>
        (case mapRows TONCOIN tokensBySlug 0 ts of
           Inl e \<Rightarrow> Inl e
         | Inr rows \<Rightarrow> Inr (Some (arraySort compareRows rows))))"

subsection \<open>The order of the sorted rows\<close>

text \<open>
  Row \<open>a\<close> stands before row \<open>b\<close> when its cost is larger, or when the costs are equal
  and \<open>a\<close> comes from an earlier position of the input. A row is numeric when its cost is
  a value that arithmetic returns and not \<^verbatim>\<open>NaN\<close>.
\<close>

definition rowBefore :: "'n SortedDappTransfer \<Rightarrow> 'n SortedDappTransfer \<Rightarrow> bool" where
  "rowBefore a b \<longleftrightarrow>
     fless (sortingCost b) (sortingCost a) \<or> (sortingCost a = sortingCost b \<and> index a < index b)"

definition numericRow :: "'n SortedDappTransfer \<Rightarrow> bool" where
  "numericRow r \<longleftrightarrow> isDouble (sortingCost r) \<and> \<not> isNaN (sortingCost r)"

subsection \<open>Arrays as objects\<close>

text \<open>
  \<^verbatim>\<open>map\<close> returns a new array and \<^verbatim>\<open>sort\<close> sorts its receiver in place, so whether the
  caller's array survives the call depends on which array is sorted. To state that, arrays
  live in a heap: a cell per reference, and a counter of the references in use. The elements
  are kept by value: the object literal builds a new object for every row, and no element of
  the input is assigned to. An array of rows is an array of requests as well (a row has all
  the fields of a request), which \<open>requestsOf\<close> reads.
\<close>

datatype 'n jsArray =
    TransferArray "'n ApiDappTransfer list"
  | RowArray "'n SortedDappTransfer list"

record 'n heap =
  cells :: "nat \<Rightarrow> 'n jsArray"
  used :: nat

fun requestsOf :: "'n jsArray \<Rightarrow> 'n ApiDappTransfer list" where
  "requestsOf (TransferArray ts) = ts"
| "requestsOf (RowArray rows) = map ApiDappTransfer.truncate rows"

definition allocate :: "'n jsArray \<Rightarrow> 'n heap \<Rightarrow> nat \<times> 'n heap" where
  "allocate a h = (used h, h\<lparr>cells := (cells h)(used h := a), used := Suc (used h)\<rparr>)"

definition sortRowsInPlace ::
  "('n SortedDappTransfer \<Rightarrow> 'n SortedDappTransfer \<Rightarrow> number) \<Rightarrow> nat \<Rightarrow> 'n heap
    \<Rightarrow> 'n heap" where
  "sortRowsInPlace cmp r h =
    (case cells h r of
       RowArray rows \<Rightarrow> h\<lparr>cells := (cells h)(r := RowArray (arraySort cmp rows))\<rparr>
     | TransferArray ts \<Rightarrow> h)"

text \<open>
  The comparator is one of rows, and the only array sorted is the one that \<^verbatim>\<open>map\<close> has just
  built, an array of rows.
\<close>

text \<open>
  \<^verbatim>\<open>sortTransactions\<close> once more, on references: the argument is a reference or absent,
  and the result is the reference that \<^verbatim>\<open>sort\<close> returns, with the heap after the call.
\<close>

definition sortTransactionsOnHeap ::
  "NativeToken \<Rightarrow> (string \<rightharpoonup> ApiTokenWithPrice) \<Rightarrow> nat option \<Rightarrow> 'n heap
    \<Rightarrow> error + (nat option \<times> 'n heap)" where
  "sortTransactionsOnHeap TONCOIN tokensBySlug transactions h =
    (case transactions of
       None \<Rightarrow> Inr (None, h)
     | Some r \<Rightarrow>
        (case mapRows TONCOIN tokensBySlug 0 (requestsOf (cells h r)) of
           Inl e \<Rightarrow> Inl e
         | Inr rows \<Rightarrow>
            (let (mapped, h1) = allocate (RowArray rows) h
             in Inr (Some mapped, sortRowsInPlace compareRows mapped h1))))"

subsection \<open>The amount text of a row (lines 111 to 128)\<close>

text \<open>
  The value of the variable \<^verbatim>\<open>amountText\<close> of \<^verbatim>\<open>renderTransactionRow\<close> when the
  function builds the row. \<^verbatim>\<open>toDecimal\<close> and \<^verbatim>\<open>formatCurrency\<close> are helpers missing
  from the sources; both are parameters. \<^verbatim>\<open>toDecimal\<close> takes the decimal count as an
  optional argument (\<open>None\<close> when the call leaves it out). A \<^verbatim>\<open>bigint\<close> is truthy when
  it is not zero, a string when it is not empty.
\<close>

definition amountText ::
  "NativeToken \<Rightarrow> (int \<Rightarrow> nat option \<Rightarrow> string) \<Rightarrow> (string \<Rightarrow> string \<Rightarrow> string)
    \<Rightarrow> (string \<rightharpoonup> ApiTokenWithPrice) \<Rightarrow> ('n, 'z) ApiDappTransfer_scheme \<Rightarrow> string" where
  "amountText TONCOIN toDecimal formatCurrency tokensBySlug transaction =
    (let text0 =
       (if isNftTransferPayload (payload transaction) then ''1 NFT''
        else if isTokenTransferPayload (payload transaction) then
          (case payload transaction of
             TokenTransfer tokenSlug amount \<Rightarrow>
               (case tokensBySlug tokenSlug of
                  Some token \<Rightarrow>
                    formatCurrency (toDecimal amount (Some (decimals token))) (symbol token)
                | None \<Rightarrow> '''')
           | _ \<Rightarrow> '''')
        else '''')
     in if text0 = '''' \<or> displayedAmount transaction \<noteq> 0
        then (if text0 \<noteq> '''' then text0 @ '' + '' else text0)
               @ formatCurrency (toDecimal (displayedAmount transaction) None) (symbol TONCOIN)
        else text0)"

subsection \<open>Example inputs\<close>

text \<open>
  A price table with the native coin at 5 USD, a token \<open>X\<close> of two decimals at 2 USD and a
  token \<open>Z\<close> at price 0, and requests of each kind. \<open>exampleToDecimal\<close> and
  \<open>exampleFormatCurrency\<close> stand for the two missing helpers on the amounts that occur
  below.
\<close>

definition exampleTONCOIN :: NativeToken where
  "exampleTONCOIN = \<lparr>decimals = 9, symbol = ''TON'', slug = ''toncoin''\<rparr>"

definition examplePrices :: "string \<rightharpoonup> ApiTokenWithPrice" where
  "examplePrices =
    [''toncoin'' \<mapsto> \<lparr>decimals = 9, symbol = ''TON'', quote = \<lparr>priceUsd = Finite 5\<rparr>\<rparr>,
     ''X'' \<mapsto> \<lparr>decimals = 2, symbol = ''X'', quote = \<lparr>priceUsd = Finite 2\<rparr>\<rparr>,
     ''Z'' \<mapsto> \<lparr>decimals = 0, symbol = ''Z'', quote = \<lparr>priceUsd = Finite 0\<rparr>\<rparr>]"

definition tokenRequest :: "string ApiDappTransfer" where
  "tokenRequest =
    \<lparr>displayedAmount = 0, fullFee = 1000000000, displayedToAddress = ''EQ-token'',
     payload = TokenTransfer ''X'' 5000, isScam = False\<rparr>"

definition nativeRequest :: "string ApiDappTransfer" where
  "nativeRequest =
    \<lparr>displayedAmount = 100000000000, fullFee = 0, displayedToAddress = ''EQ-native'',
     payload = NoPayload, isScam = False\<rparr>"

definition nftRequest :: "string ApiDappTransfer" where
  "nftRequest =
    \<lparr>displayedAmount = 0, fullFee = 0, displayedToAddress = ''EQ-nft'',
     payload = NftTransfer ''nft-1'', isScam = False\<rparr>"

definition tiedRequest :: "string ApiDappTransfer" where
  "tiedRequest =
    \<lparr>displayedAmount = 99000000000, fullFee = 1000000000, displayedToAddress = ''EQ-tied'',
     payload = NoPayload, isScam = True\<rparr>"

definition unknownTokenRequest :: "string ApiDappTransfer" where
  "unknownTokenRequest =
    \<lparr>displayedAmount = 1000000000, fullFee = 0, displayedToAddress = ''EQ-unknown'',
     payload = TokenTransfer ''Y'' 700, isScam = False\<rparr>"

definition nftWithAmountRequest :: "string ApiDappTransfer" where
  "nftWithAmountRequest =
    \<lparr>displayedAmount = 100000000000, fullFee = 0, displayedToAddress = ''EQ-nft'',
     payload = NftTransfer ''nft-2'', isScam = False\<rparr>"

definition zeroRequest :: "string ApiDappTransfer" where
  "zeroRequest =
    \<lparr>displayedAmount = 0, fullFee = 10000000, displayedToAddress = ''EQ-zero'',
     payload = NoPayload, isScam = False\<rparr>"

text \<open>0.07 coins: neither the conversion nor the product with the price is exact.\<close>

definition roundingRequest :: "string ApiDappTransfer" where
  "roundingRequest =
    \<lparr>displayedAmount = 70000000, fullFee = 0, displayedToAddress = ''EQ-round'',
     payload = NoPayload, isScam = False\<rparr>"

text \<open>Amounts beyond the range of a double.\<close>

definition overflowRequest :: "string ApiDappTransfer" where
  "overflowRequest =
    \<lparr>displayedAmount = 10 ^ 320, fullFee = 0, displayedToAddress = ''EQ-unknown'',
     payload = TokenTransfer ''Y'' 700, isScam = False\<rparr>"

definition unpricedRequest :: "string ApiDappTransfer" where
  "unpricedRequest =
    \<lparr>displayedAmount = 0, fullFee = 0, displayedToAddress = ''EQ-unpriced'',
     payload = TokenTransfer ''Z'' (10 ^ 309), isScam = False\<rparr>"

text \<open>
  199,999,999.999999999 coins: at 5 USD, worth 999,999,999.999999995 USD exactly.
\<close>

definition nearFloorRequest :: "string ApiDappTransfer" where
  "nearFloorRequest =
    \<lparr>displayedAmount = 199999999999999999, fullFee = 0, displayedToAddress = ''EQ-near'',
     payload = NoPayload, isScam = False\<rparr>"

definition oneCoinRequest :: "string ApiDappTransfer" where
  "oneCoinRequest =
    \<lparr>displayedAmount = 1000000000, fullFee = 0, displayedToAddress = ''EQ-one'',
     payload = NoPayload, isScam = False\<rparr>"

definition twoCoinRequest :: "string ApiDappTransfer" where
  "twoCoinRequest =
    \<lparr>displayedAmount = 2000000000, fullFee = 0, displayedToAddress = ''EQ-two'',
     payload = NoPayload, isScam = False\<rparr>"

definition exampleTransfers :: "string ApiDappTransfer list" where
  "exampleTransfers = [tokenRequest, nativeRequest, nftRequest, tiedRequest]"

definition exampleRows :: "string SortedDappTransfer list" where
  "exampleRows =
    [sortedRow nftRequest 2 (Finite 1000000000), sortedRow nativeRequest 1 (Finite 500),
     sortedRow tiedRequest 3 (Finite 500), sortedRow tokenRequest 0 (Finite 105)]"

definition exampleHeap :: "string heap" where
  "exampleHeap =
    \<lparr>cells = (\<lambda>r. if r = 1 then TransferArray exampleTransfers else TransferArray []),
     used = 2\<rparr>"

definition exampleToDecimal :: "int \<Rightarrow> nat option \<Rightarrow> string" where
  "exampleToDecimal v d =
    (if v = 5000 \<and> d = Some 2 then ''50''
     else if v = 100000000000 \<and> d = None then ''100''
     else if v = 1000000000 \<and> d = None then ''1''
     else ''0'')"

definition exampleFormatCurrency :: "string \<Rightarrow> string \<Rightarrow> string" where
  "exampleFormatCurrency v currency = v @ '' '' @ currency"

section \<open>Rounding and arithmetic of doubles\<close>


subsection \<open>Powers of two\<close>

lemma pow2_eq_powi: "pow2 k = 2 powi k"
  by (simp add: pow2_def power_int_def inverse_eq_divide power_one_over)

lemma pow2_pos [simp]: "0 < pow2 k"
  by (simp add: pow2_def)

lemma pow2_nonneg [simp]: "0 \<le> pow2 k"
  using pow2_pos [of k] by (rule less_imp_le)

lemma pow2_not_neg [simp]: "\<not> pow2 k < 0"
  using pow2_nonneg [of k] by (simp only: not_less)

lemma pow2_nonzero [simp]: "pow2 k \<noteq> 0"
  by (metis pow2_pos less_irrefl)

lemma pow2_add: "pow2 (j + k) = pow2 j * pow2 k"
  by (simp add: pow2_eq_powi power_int_add)

lemma pow2_diff: "pow2 (j - k) = pow2 j / pow2 k"
  by (simp add: pow2_eq_powi power_int_diff)

lemma pow2_nonneg_int: "0 \<le> k \<Longrightarrow> pow2 k = of_int (2 ^ nat k)"
  by (simp add: pow2_def)

lemma pow2_strict_mono: "j < k \<Longrightarrow> pow2 j < pow2 k"
  by (simp add: pow2_eq_powi power_int_strict_increasing)

lemma pow2_mono: "j \<le> k \<Longrightarrow> pow2 j \<le> pow2 k"
  by (simp add: pow2_eq_powi power_int_increasing)

lemma pow2_le_iff: "pow2 j \<le> pow2 k \<longleftrightarrow> j \<le> k"
  using pow2_strict_mono [of k j] pow2_mono [of j k] by (auto simp add: not_le [symmetric])

lemma pow2_less_iff: "pow2 j < pow2 k \<longleftrightarrow> j < k"
  using pow2_strict_mono [of j k] pow2_mono [of k j] by (auto simp add: not_less [symmetric])

subsection \<open>The exponent\<close>

lemma exponentOf_bounds:
  assumes "0 < x"
  shows "pow2 (exponentOf x) \<le> x \<and> x < pow2 (exponentOf x + 1)"
proof (cases "1 \<le> x")
  case True
  define n where "n = nat \<lfloor>x\<rfloor>"
  define k where "k = floorlog 2 n"
  have n: "0 < n"
    using True by (simp add: n_def)
  have b: "2 ^ (k - 1) \<le> n" "n < 2 ^ k"
    using floorlog_bounds [of n 2] n by (simp_all add: k_def)
  have k: "0 < k"
    using n floorlog_eq_zero_iff [of 2 n] by (simp add: k_def)
  have e: "exponentOf x = int k - 1"
    using True by (simp add: exponentOf_def n_def k_def)
  have "0 \<le> \<lfloor>x\<rfloor>"
    using True by simp
  then have "of_nat n = (of_int \<lfloor>x\<rfloor> :: rat)"
    by (simp add: n_def)
  then have nx: "of_nat n \<le> x" "x < of_nat n + 1"
    using floor_correct [of x] by simp_all
  have "pow2 (int k - 1) = of_nat (2 ^ (k - 1))"
    using k by (simp add: pow2_def nat_diff_distrib)
  also have "\<dots> \<le> of_nat n"
    using b(1) by (simp only: of_nat_le_iff)
  finally have lo: "pow2 (int k - 1) \<le> x"
    using nx(1) by simp
  have "Suc n \<le> 2 ^ k"
    using b(2) by simp
  then have "(of_nat (Suc n) :: rat) \<le> of_nat (2 ^ k)"
    by (simp only: of_nat_le_iff)
  then have "of_nat n + 1 \<le> (of_nat (2 ^ k) :: rat)"
    by simp
  then have "x < of_nat (2 ^ k)"
    using nx(2) by simp
  also have "of_nat (2 ^ k) = pow2 (int k)"
    by (simp add: pow2_def)
  finally have hi: "x < pow2 (int k - 1 + 1)"
    by simp
  from lo hi e show ?thesis
    by simp
next
  case False
  define y where "y = 1 / x"
  define m where "m = nat (\<lceil>y\<rceil> - 1)"
  define k where "k = floorlog 2 m"
  have y: "1 < y"
    using False assms by (simp add: y_def)
  then have c: "2 \<le> \<lceil>y\<rceil>"
    by (simp add: le_ceiling_iff)
  then have m: "0 < m"
    by (simp add: m_def)
  have my: "of_nat m < y" "y \<le> of_nat m + 1"
  proof -
    have "of_nat m = (of_int (\<lceil>y\<rceil> - 1) :: rat)"
      using c by (simp add: m_def)
    then show "of_nat m < y" "y \<le> of_nat m + 1"
      by (simp_all add: ceiling_correct)
  qed
  have b: "2 ^ (k - 1) \<le> m" "m < 2 ^ k"
    using floorlog_bounds [of m 2] m by (simp_all add: k_def)
  have e: "exponentOf x = - int k"
    using False by (simp add: exponentOf_def y_def m_def k_def)
  have "Suc m \<le> 2 ^ k"
    using b(2) by simp
  then have "(of_nat (Suc m) :: rat) \<le> of_nat (2 ^ k)"
    by (simp only: of_nat_le_iff)
  then have "of_nat m + 1 \<le> (of_nat (2 ^ k) :: rat)"
    by simp
  then have "y \<le> 2 ^ k"
    using my(2) by simp
  then have "1 / 2 ^ k \<le> x"
    using assms by (simp add: y_def field_simps)
  moreover have "pow2 (- int k) = 1 / 2 ^ k"
    by (simp add: pow2_eq_powi power_int_minus inverse_eq_divide)
  ultimately have lo: "pow2 (- int k) \<le> x"
    by simp
  have "(of_nat (2 ^ (k - 1)) :: rat) \<le> of_nat m"
    using b(1) by (simp only: of_nat_le_iff)
  then have "(2 ^ (k - 1) :: rat) \<le> of_nat m"
    by simp
  then have "2 ^ (k - 1) < y"
    using my(1) by linarith
  then have "x < 1 / 2 ^ (k - 1)"
    using assms by (simp add: y_def field_simps)
  moreover have k: "0 < k"
    using m floorlog_eq_zero_iff [of 2 m] by (simp add: k_def)
  then have "pow2 (- int k + 1) = 1 / 2 ^ (k - 1)"
    by (simp add: pow2_def nat_diff_distrib algebra_simps) 
  ultimately have hi: "x < pow2 (- int k + 1)"
    by simp
  from lo hi e show ?thesis
    by simp
qed

lemma exponentOf_unique:
  assumes "pow2 e \<le> x" and "x < pow2 (e + 1)"
  shows "exponentOf x = e"
proof -
  have "0 < x"
    using assms(1) pow2_pos [of e] by linarith
  then have b: "pow2 (exponentOf x) \<le> x" "x < pow2 (exponentOf x + 1)"
    using exponentOf_bounds by simp_all
  have "pow2 e < pow2 (exponentOf x + 1)"
    using assms(1) b(2) by linarith
  then have "e < exponentOf x + 1"
    by (simp add: pow2_less_iff)
  moreover have "pow2 (exponentOf x) < pow2 (e + 1)"
    using assms(2) b(1) by linarith
  then have "exponentOf x < e + 1"
    by (simp add: pow2_less_iff)
  ultimately show ?thesis
    by simp
qed

subsection \<open>Rounding to an integer\<close>

lemma roundHalfEven_cases: "roundHalfEven s = \<lfloor>s\<rfloor> \<or> roundHalfEven s = \<lfloor>s\<rfloor> + 1"
  by (simp add: roundHalfEven_def Let_def)

lemma roundHalfEven_of_int [simp]: "roundHalfEven (of_int k) = k"
  by (simp add: roundHalfEven_def)

lemma roundHalfEven_ge:
  assumes "of_int k \<le> s"
  shows "k \<le> roundHalfEven s"
proof -
  have "k \<le> \<lfloor>s\<rfloor>"
    using assms by (simp add: le_floor_iff)
  then show ?thesis
    using roundHalfEven_cases [of s] by auto
qed

lemma roundHalfEven_le:
  assumes "s \<le> of_int k"
  shows "roundHalfEven s \<le> k"
proof (cases "s = of_int k")
  case True
  then show ?thesis by simp
next
  case False
  with assms have "s < of_int k" by simp
  then have "\<lfloor>s\<rfloor> < k"
    by (simp add: floor_less_iff)
  then show ?thesis
    using roundHalfEven_cases [of s] by auto
qed

subsection \<open>Rounding to a double\<close>

lemma round64_pos_unfold:
  "0 < x \<Longrightarrow> round64 x =
    (if pow2 1024 \<le> of_int (significand x) * pow2 (ulpExponent x) then PosInfinity
     else Finite (of_int (significand x) * pow2 (ulpExponent x)))"
  by (simp add: round64_def Let_def)

lemma round64_neg_unfold:
  "x < 0 \<Longrightarrow> round64 x =
    (if pow2 1024 \<le> of_int (significand (- x)) * pow2 (ulpExponent (- x)) then NegInfinity
     else Finite (- (of_int (significand (- x)) * pow2 (ulpExponent (- x)))))"
  by (simp add: round64_def Let_def)

lemma ulpExponent_ge: "- 1074 \<le> ulpExponent a"
  by (simp add: ulpExponent_def)

lemma significand_ge:
  assumes "0 < a" and "of_int k * pow2 (ulpExponent a) \<le> a"
  shows "k \<le> significand a"
proof -
  have "of_int k \<le> a / pow2 (ulpExponent a)"
    using assms(2) by (simp add: pos_le_divide_eq)
  then show ?thesis
    unfolding significand_def by (rule roundHalfEven_ge)
qed

lemma significand_le:
  assumes "0 < a" and "a \<le> of_int k * pow2 (ulpExponent a)"
  shows "significand a \<le> k"
proof -
  have "a / pow2 (ulpExponent a) \<le> of_int k"
    using assms(2) by (simp add: pos_divide_le_eq)
  then show ?thesis
    unfolding significand_def by (rule roundHalfEven_le)
qed

lemma significand_nonneg: "0 < a \<Longrightarrow> 0 \<le> significand a"
  using significand_ge [of a 0] by simp

text \<open>In the normal range the significand has its leading bit.\<close>

lemma significand_normal:
  assumes "0 < a" and "ulpExponent a = exponentOf a - 52"
  shows "2 ^ 52 \<le> significand a"
proof -
  have "pow2 (exponentOf a) \<le> a"
    using exponentOf_bounds [OF assms(1)] by simp
  moreover have "pow2 (exponentOf a) = of_int (2 ^ 52) * pow2 (ulpExponent a)"
  proof -
    have "pow2 (exponentOf a) = pow2 (52 + ulpExponent a)"
      using assms(2) by simp
    also have "\<dots> = pow2 52 * pow2 (ulpExponent a)"
      by (rule pow2_add)
    finally show ?thesis
      by (simp add: pow2_def)
  qed
  ultimately have "of_int (2 ^ 52) * pow2 (ulpExponent a) \<le> a"
    by simp
  then show ?thesis
    using assms(1) by (rule significand_ge [rotated])
qed

lemma ulpExponent_cases:
  "ulpExponent a = - 1074 \<or> (ulpExponent a = exponentOf a - 52 \<and> - 1074 < ulpExponent a)"
  by (auto simp add: ulpExponent_def max_def)

lemma round64_zero [simp]: "round64 0 = Finite 0"
  by (simp add: round64_def)

lemma round64_minus: "round64 (- x) = fneg (round64 x)"
proof -
  consider "x = 0" | "0 < x" | "x < 0" by linarith
  then show ?thesis
  proof cases
    case 1
    then show ?thesis by (simp add: fneg_def)
  next
    case 2
    then show ?thesis
      by (simp add: round64_pos_unfold round64_neg_unfold fneg_def)
  next
    case 3
    then have "0 < - x" by simp
    with 3 show ?thesis
      by (simp add: round64_pos_unfold round64_neg_unfold fneg_def)
  qed
qed

lemma onGrid_ulp:
  "onGrid (of_int n * pow2 (ulpExponent a))"
proof -
  define d where "d = ulpExponent a + 1074"
  have d: "0 \<le> d"
    using ulpExponent_ge [of a] by (simp add: d_def)
  have "pow2 (ulpExponent a) = pow2 (d + (- 1074))"
    by (simp add: d_def)
  also have "\<dots> = pow2 d * pow2 (- 1074)"
    by (rule pow2_add)
  also have "pow2 d = of_int (2 ^ nat d)"
    using d by (rule pow2_nonneg_int)
  finally have "of_int n * pow2 (ulpExponent a) = of_int (n * 2 ^ nat d) * pow2 (- 1074)"
    by simp
  then show ?thesis
    unfolding onGrid_def by blast
qed

lemma onGrid_minus: "onGrid r \<Longrightarrow> onGrid (- r)"
proof -
  assume "onGrid r"
  then obtain m :: int where "r = of_int m * pow2 (- 1074)"
    unfolding onGrid_def by blast
  then have "- r = of_int (- m) * pow2 (- 1074)"
    by simp
  then show ?thesis
    unfolding onGrid_def by blast
qed

lemma onGrid_diff: "onGrid r \<Longrightarrow> onGrid s \<Longrightarrow> onGrid (r - s)"
proof -
  assume "onGrid r" and "onGrid s"
  then obtain m n :: int where "r = of_int m * pow2 (- 1074)" "s = of_int n * pow2 (- 1074)"
    unfolding onGrid_def by blast
  then have "r - s = of_int (m - n) * pow2 (- 1074)"
    by (simp add: algebra_simps)
  then show ?thesis
    unfolding onGrid_def by blast
qed

lemma onGrid_zero [simp]: "onGrid 0"
  unfolding onGrid_def by (rule exI [of _ 0]) simp

lemma onGrid_pos_ge:
  assumes "onGrid r" and "0 < r"
  shows "pow2 (- 1074) \<le> r"
proof -
  from assms(1) obtain m :: int where m: "r = of_int m * pow2 (- 1074)"
    unfolding onGrid_def by blast
  with assms(2) have "0 < (of_int m :: rat)"
    by (simp add: zero_less_mult_iff)
  then have "1 \<le> m" by simp
  then have "(1 :: rat) \<le> of_int m"
    by (metis of_int_1_le_iff)
  then have "1 * pow2 (- 1074) \<le> of_int m * pow2 (- 1074)"
    by (rule mult_right_mono) simp
  with m show ?thesis by simp
qed

lemma round64_onGrid: "round64 x = Finite r \<Longrightarrow> onGrid r"
proof -
  assume a: "round64 x = Finite r"
  consider "x = 0" | "0 < x" | "x < 0" by linarith
  then show ?thesis
  proof cases
    case 1
    with a show ?thesis by simp
  next
    case 2
    with a have "r = of_int (significand x) * pow2 (ulpExponent x)"
      by (simp add: round64_pos_unfold split: if_splits)
    then show ?thesis
      by (simp add: onGrid_ulp)
  next
    case 3
    with a have "r = - (of_int (significand (- x)) * pow2 (ulpExponent (- x)))"
      by (simp add: round64_neg_unfold split: if_splits)
    then show ?thesis
      by (simp add: onGrid_ulp onGrid_minus)
  qed
qed

text \<open>A positive argument never rounds below zero, and from the smallest double on it
  never rounds to zero.\<close>

lemma round64_nonneg:
  assumes "0 < x"
  shows "round64 x = PosInfinity \<or> (\<exists>r. round64 x = Finite r \<and> 0 \<le> r)"
proof -
  have "0 \<le> of_int (significand x) * pow2 (ulpExponent x)"
    using significand_nonneg [OF assms] by (simp add: zero_le_mult_iff)
  then show ?thesis
    using assms by (simp add: round64_pos_unfold)
qed

lemma round64_pos:
  assumes "pow2 (- 1074) \<le> x"
  shows "round64 x = PosInfinity \<or> (\<exists>r. round64 x = Finite r \<and> 0 < r)"
proof -
  have x: "0 < x"
    using assms pow2_pos [of "- 1074"] by linarith
  have "1 \<le> significand x"
  proof -
    from ulpExponent_cases [of x] show ?thesis
    proof
      assume "ulpExponent x = - 1074"
      then have "of_int 1 * pow2 (ulpExponent x) \<le> x"
        using assms by simp
      then show ?thesis
        using x by (rule significand_ge [rotated])
    next
      assume "ulpExponent x = exponentOf x - 52 \<and> - 1074 < ulpExponent x"
      then have "2 ^ 52 \<le> significand x"
        using x significand_normal by blast
      then show ?thesis by simp
    qed
  qed
  then have "0 < (of_int (significand x) :: rat)"
    by simp
  then have "0 < of_int (significand x) * pow2 (ulpExponent x)"
    by (simp add: zero_less_mult_iff)
  then show ?thesis
    using x by (simp add: round64_pos_unfold)
qed

text \<open>Rounding does not cross an integer below \<open>2 ^ 53\<close>, nor a power of two.\<close>

lemma round64_ge_int:
  assumes "0 < m" and "m \<le> 2 ^ 53" and "of_int m \<le> x"
  shows "round64 x = PosInfinity \<or> (\<exists>r. round64 x = Finite r \<and> of_int m \<le> r)"
proof -
  have "(0 :: rat) < of_int m"
    using assms(1) by simp
  then have x: "0 < x"
    using assms(3) by linarith
  define q where "q = ulpExponent x"
  have "of_int m \<le> of_int (significand x) * pow2 q"
  proof (cases "q \<le> 0")
    case True
    define K where "K = m * 2 ^ nat (- q)"
    have "pow2 (- q) = of_int (2 ^ nat (- q))"
      using True by (simp add: pow2_nonneg_int)
    then have "of_int K = of_int m * pow2 (- q)"
      by (simp add: K_def)
    moreover have "pow2 (- q) * pow2 q = 1"
      using pow2_add [of "- q" q] by (simp add: pow2_def)
    ultimately have Kq: "of_int K * pow2 q = of_int m"
      by (simp add: mult.assoc)
    then have "K \<le> significand x"
      using x assms(3) by (simp add: q_def significand_ge)
    then have "(of_int K :: rat) \<le> of_int (significand x)"
      by simp
    then have "of_int K * pow2 q \<le> of_int (significand x) * pow2 q"
      by (rule mult_right_mono) simp
    with Kq show ?thesis by simp
  next
    case False
    then have n: "2 ^ 52 \<le> significand x"
      using ulpExponent_cases [of x] significand_normal [OF x] by (simp add: q_def)
    have one: "1 \<le> q"
      using False by simp
    have "(2 :: rat) = pow2 1"
      by (simp add: pow2_def)
    also have "\<dots> \<le> pow2 q"
      using one by (rule pow2_mono)
    finally have two: "2 \<le> pow2 q" .
    have h1: "(of_int (2 ^ 52) :: rat) \<le> of_int (significand x)"
      using n by (simp only: of_int_le_iff)
    have nn: "(0 :: rat) \<le> of_int (significand x)"
      using significand_nonneg [OF x] by simp
    have h2: "(of_int (2 ^ 52) :: rat) * 2 \<le> of_int (significand x) * pow2 q"
      using h1 two nn by (rule mult_mono) simp
    have h3: "(of_int m :: rat) \<le> of_int (2 ^ 53)"
      using assms(2) by (simp only: of_int_le_iff)
    have h4: "(of_int (2 ^ 53) :: rat) = of_int (2 ^ 52) * 2"
      by simp
    from h2 h3 h4 show ?thesis
      by linarith
  qed
  then show ?thesis
    using x by (simp add: round64_pos_unfold q_def)
qed

lemma round64_pos_le_pow2:
  assumes "0 < x" and "x \<le> pow2 k" and "- 1074 \<le> k" and "k \<le> 1023"
  shows "\<exists>r. round64 x = Finite r \<and> 0 \<le> r \<and> r \<le> pow2 k"
proof -
  define q where "q = ulpExponent x"
  have "pow2 (exponentOf x) \<le> pow2 k"
    using exponentOf_bounds [OF assms(1)] assms(2) by linarith
  then have "exponentOf x \<le> k"
    by (simp add: pow2_le_iff)
  then have qk: "q \<le> k"
    using assms(3) by (simp add: q_def ulpExponent_def)
  define K :: int where "K = 2 ^ nat (k - q)"
  have "pow2 (k - q) = of_int K"
    using qk by (simp add: K_def pow2_nonneg_int)
  then have Kq: "of_int K * pow2 q = pow2 k"
    using pow2_add [of "k - q" q] by simp
  then have "significand x \<le> K"
    using assms(1,2) by (simp add: q_def significand_le)
  then have "(of_int (significand x) :: rat) \<le> of_int K"
    by simp
  then have "of_int (significand x) * pow2 q \<le> of_int K * pow2 q"
    by (rule mult_right_mono) simp
  with Kq have le: "of_int (significand x) * pow2 q \<le> pow2 k"
    by simp
  have "pow2 k < pow2 1024"
    using assms(4) by (simp add: pow2_less_iff)
  with le have "\<not> pow2 1024 \<le> of_int (significand x) * pow2 q"
    by linarith
  moreover have "0 \<le> of_int (significand x) * pow2 q"
    using significand_nonneg [OF assms(1)] by (simp add: zero_le_mult_iff)
  ultimately show ?thesis
    using assms(1) le by (simp add: round64_pos_unfold q_def)
qed

text \<open>A double is its own rounding.\<close>

lemma round64_exact:
  assumes "0 < m" and "m < 2 ^ 53" and "- 1074 \<le> k" and "of_int m * pow2 k < pow2 1024"
  shows "round64 (of_int m * pow2 k) = Finite (of_int m * pow2 k)"
proof -
  define x where "x = of_int m * pow2 k"
  have x: "0 < x"
    using assms(1) by (simp add: x_def zero_less_mult_iff)
  define q where "q = ulpExponent x"
  have "(of_int m :: rat) < of_int (2 ^ 53)"
    using assms(2) by (simp only: of_int_less_iff)
  then have "of_int m * pow2 k < of_int (2 ^ 53) * pow2 k"
    by (rule mult_strict_right_mono) simp
  also have "of_int (2 ^ 53) * pow2 k = pow2 (53 + k)"
  proof -
    have "pow2 53 = of_int (2 ^ 53)"
      by (simp add: pow2_def)
    then show ?thesis
      using pow2_add [of 53 k] by simp
  qed
  finally have "pow2 (exponentOf x) < pow2 (53 + k)"
    using exponentOf_bounds [OF x] by (simp add: x_def)
  then have "exponentOf x < 53 + k"
    by (simp add: pow2_less_iff)
  then have qk: "q \<le> k"
    using assms(3) by (simp add: q_def ulpExponent_def)
  define K where "K = m * 2 ^ nat (k - q)"
  have "pow2 (k - q) = of_int (2 ^ nat (k - q))"
    using qk by (simp add: pow2_nonneg_int)
  then have "of_int K = of_int m * pow2 (k - q)"
    by (simp add: K_def)
  also have "\<dots> = x / pow2 q"
    by (simp add: x_def pow2_diff)
  finally have Kx: "of_int K = x / pow2 q" .
  have "significand x = roundHalfEven (of_int K)"
    unfolding significand_def q_def [symmetric] by (simp only: Kx)
  then have "significand x = K"
    by simp
  moreover have "of_int K * pow2 q = x"
    by (simp only: Kx) simp
  ultimately show ?thesis
    using x assms(4) by (simp add: round64_pos_unfold q_def [symmetric] x_def [symmetric])
qed

subsection \<open>Order\<close>

lemma fless_irrefl [simp]: "\<not> fless a a"
  by (cases a) simp_all

lemma fless_trans: "fless a b \<Longrightarrow> fless b c \<Longrightarrow> fless a c"
  by (cases a; cases b; cases c) simp_all

lemma fless_asym: "fless a b \<Longrightarrow> \<not> fless b a"
  by (cases a; cases b) simp_all

lemma fless_linear: "\<not> isNaN a \<Longrightarrow> \<not> isNaN b \<Longrightarrow> fless a b \<or> a = b \<or> fless b a"
  by (cases a; cases b) (auto simp add: isNaN_def)

lemma fless_not_NaN: "fless a b \<Longrightarrow> \<not> isNaN a \<and> \<not> isNaN b"
  by (cases a; cases b) (simp_all add: isNaN_def)

lemma fle_trans: "fle a b \<Longrightarrow> fle b c \<Longrightarrow> fle a c"
  unfolding fle_def using fless_trans by blast

lemma fle_fless_trans: "fle a b \<Longrightarrow> fless b c \<Longrightarrow> fless a c"
  unfolding fle_def using fless_trans by blast

lemma fless_fle_trans: "fless a b \<Longrightarrow> fle b c \<Longrightarrow> fless a c"
  unfolding fle_def using fless_trans by blast

lemma not_fless_fle: "\<not> isNaN a \<Longrightarrow> \<not> isNaN b \<Longrightarrow> \<not> fless a b \<Longrightarrow> fle b a"
  unfolding fle_def using fless_linear by blast

lemma fle_not_fless: "fle a b \<Longrightarrow> \<not> fless b a"
  unfolding fle_def using fless_asym by auto

subsection \<open>Arithmetic\<close>

lemma isDouble_round64 [simp]: "isDouble (round64 x)"
  unfolding isDouble_def using round64_onGrid by blast

lemma isDouble_simps [simp]:
  "isDouble PosInfinity" "isDouble NegInfinity" "isDouble NaN" "isDouble (Finite 0)"
  by (simp_all add: isDouble_def)

lemma isDouble_fmul [simp]: "isDouble (fmul a b)"
  by (cases a; cases b) (simp_all add: isNaN_def)

lemma isDouble_fadd [simp]: "isDouble (fadd a b)"
  by (cases a; cases b) simp_all

text \<open>The difference of two doubles has the sign of their exact difference: it does not
  round to zero (gradual underflow), and overflow keeps the sign.\<close>

lemma round64_sign_pos:
  assumes "onGrid d"
  shows "fless (Finite 0) (round64 d) \<longleftrightarrow> 0 < d"
proof -
  consider "d = 0" | "0 < d" | "d < 0" by linarith
  then show ?thesis
  proof cases
    case 1
    then show ?thesis by simp
  next
    case 2
    then have "pow2 (- 1074) \<le> d"
      using assms by (simp add: onGrid_pos_ge)
    then have "round64 d = PosInfinity \<or> (\<exists>r. round64 d = Finite r \<and> 0 < r)"
      by (rule round64_pos)
    with 2 show ?thesis by auto
  next
    case 3
    then have "0 < - d" by simp
    then have "round64 (- d) = PosInfinity \<or> (\<exists>r. round64 (- d) = Finite r \<and> 0 \<le> r)"
      by (rule round64_nonneg)
    moreover have "round64 d = fneg (round64 (- d))"
      using round64_minus [of "- d"] by simp
    ultimately have "\<not> fless (Finite 0) (round64 d)"
      by (auto simp add: fneg_def)
    with 3 show ?thesis by simp
  qed
qed

lemma compare_positive_iff:
  assumes "isDouble a" and "isDouble b" and "\<not> isNaN a" and "\<not> isNaN b"
  shows "fless (Finite 0) (sortCompare (fsub b a)) \<longleftrightarrow> fless a b"
proof (cases a)
  case (Finite x)
  note a = this
  show ?thesis
  proof (cases b)
    case (Finite y)
    have "onGrid (y - x)"
      using assms(1,2) a Finite by (simp add: isDouble_def onGrid_diff)
    then have "fless (Finite 0) (round64 (y - x)) \<longleftrightarrow> 0 < y - x"
      by (rule round64_sign_pos)
    moreover have "\<not> isNaN (round64 (y - x))"
      by (simp add: round64_def isNaN_def Let_def)
    ultimately show ?thesis
      using a Finite by (simp add: fsub_def fneg_def sortCompare_def)
  next
    case PosInfinity
    with a show ?thesis
      by (simp add: fsub_def fneg_def sortCompare_def isNaN_def)
  next
    case NegInfinity
    with a show ?thesis
      by (simp add: fsub_def fneg_def sortCompare_def isNaN_def)
  next
    case NaN
    with assms(4) show ?thesis by (simp add: isNaN_def)
  qed
next
  case PosInfinity
  with assms(4) show ?thesis
    by (cases b) (simp_all add: fsub_def fneg_def sortCompare_def isNaN_def)
next
  case NegInfinity
  with assms(4) show ?thesis
    by (cases b) (simp_all add: fsub_def fneg_def sortCompare_def isNaN_def)
next
  case NaN
  with assms(3) show ?thesis by (simp add: isNaN_def)
qed

subsection \<open>Evaluation\<close>

lemma roundHalfEven_divide:
  assumes "0 < d"
  shows "roundHalfEven (of_int n / of_int d) =
    (if 2 * (n mod d) < d then n div d
     else if d < 2 * (n mod d) then n div d + 1
     else if even (n div d) then n div d else n div d + 1)"
proof -
  have f: "\<lfloor>(of_int n / of_int d :: rat)\<rfloor> = n div d"
    by (rule floor_divide_of_int_eq)
  have dpos: "(0 :: rat) < of_int d"
    using assms by simp
  have "(of_int n :: rat) = of_int (n div d * d + n mod d)"
    by simp
  also have "\<dots> = of_int (n div d) * of_int d + of_int (n mod d)"
    by (simp only: of_int_add of_int_mult)
  finally have d: "(of_int n / of_int d :: rat) - of_int (n div d) = of_int (n mod d) / of_int d"
    using dpos by (simp add: field_simps)
  have lt: "of_int (n mod d) / (of_int d :: rat) < 1 / 2 \<longleftrightarrow> 2 * (n mod d) < d"
  proof -
    have "of_int (n mod d) / (of_int d :: rat) < 1 / 2
        \<longleftrightarrow> (of_int (2 * (n mod d)) :: rat) < of_int d"
      using dpos by (simp add: field_simps)
    then show ?thesis
      by (simp only: of_int_less_iff)
  qed
  have gt: "1 / 2 < of_int (n mod d) / (of_int d :: rat) \<longleftrightarrow> d < 2 * (n mod d)"
  proof -
    have "1 / 2 < of_int (n mod d) / (of_int d :: rat)
        \<longleftrightarrow> (of_int d :: rat) < of_int (2 * (n mod d))"
      using dpos by (simp add: field_simps)
    then show ?thesis
      by (simp only: of_int_less_iff)
  qed
  show ?thesis
    unfolding roundHalfEven_def Let_def f d lt gt ..
qed

lemma round64_eval:
  assumes "pow2 e \<le> x" and "x < pow2 (e + 1)" and "q = max (e - 52) (- 1074)"
    and "x / pow2 q = of_int n / of_int d" and "0 < d"
    and "m = (if 2 * (n mod d) < d then n div d
              else if d < 2 * (n mod d) then n div d + 1
              else if even (n div d) then n div d else n div d + 1)"
  shows "round64 x =
    (if pow2 1024 \<le> of_int m * pow2 q then PosInfinity else Finite (of_int m * pow2 q))"
proof -
  have x: "0 < x"
    using assms(1) pow2_pos [of e] by linarith
  have "exponentOf x = e"
    using assms(1,2) by (rule exponentOf_unique)
  then have q: "ulpExponent x = q"
    by (simp add: ulpExponent_def assms(3))
  have "significand x = m"
    unfolding significand_def q assms(4) assms(6)
    using assms(5) by (rule roundHalfEven_divide)
  with x q show ?thesis
    by (simp add: round64_pos_unfold)
qed

lemma round64_overflow:
  assumes "pow2 1024 \<le> x"
  shows "round64 x = PosInfinity"
proof -
  have x: "0 < x"
    using assms pow2_pos [of 1024] by linarith
  have "pow2 1024 < pow2 (exponentOf x + 1)"
    using exponentOf_bounds [OF x] assms by linarith
  then have e: "1024 \<le> exponentOf x"
    by (simp add: pow2_less_iff)
  then have q: "ulpExponent x = exponentOf x - 52"
    by (simp add: ulpExponent_def)
  then have "2 ^ 52 \<le> significand x"
    using x significand_normal by blast
  then have "(of_int (2 ^ 52) :: rat) \<le> of_int (significand x)"
    by (simp only: of_int_le_iff)
  then have "of_int (2 ^ 52) * pow2 (ulpExponent x)
      \<le> of_int (significand x) * pow2 (ulpExponent x)"
    by (rule mult_right_mono) simp
  moreover have "of_int (2 ^ 52) * pow2 (ulpExponent x) = pow2 (exponentOf x)"
  proof -
    have "pow2 52 = of_int (2 ^ 52)"
      by (simp add: pow2_def)
    then show ?thesis
      using pow2_add [of 52 "exponentOf x - 52"] q by simp
  qed
  moreover have "pow2 1024 \<le> pow2 (exponentOf x)"
    using e by (rule pow2_mono)
  ultimately have "pow2 1024 \<le> of_int (significand x) * pow2 (ulpExponent x)"
    by linarith
  then show ?thesis
    using x by (simp add: round64_pos_unfold)
qed

lemma round64_of_int:
  assumes "\<bar>m\<bar> < 2 ^ 53"
  shows "round64 (of_int m) = Finite (of_int m)"
proof -
  have pos: "round64 (of_int k) = Finite (of_int k)" if "0 < k" "k < 2 ^ 53" for k :: int
  proof -
    have "(of_int k :: rat) < of_int (2 ^ 53)"
      using that(2) by (simp only: of_int_less_iff)
    also have "(of_int (2 ^ 53) :: rat) \<le> pow2 1024"
      by (simp add: pow2_def)
    finally have "of_int k * pow2 0 < pow2 1024"
      by (simp add: pow2_def)
    then have "round64 (of_int k * pow2 0) = Finite (of_int k * pow2 0)"
      using that by (intro round64_exact) simp_all
    then show ?thesis
      by (simp add: pow2_def)
  qed
  consider "m = 0" | "0 < m" | "m < 0" by linarith
  then show ?thesis
  proof cases
    case 1
    then show ?thesis by simp
  next
    case 2
    with assms show ?thesis by (simp add: pos)
  next
    case 3
    with assms have "round64 (of_int (- m)) = Finite (of_int (- m))"
      by (intro pos) simp_all
    then show ?thesis
      using round64_minus [of "of_int (- m)"] by (simp add: fneg_def)
  qed
qed

lemma round64_numeral [simp]:
  "(numeral v :: int) < 2 ^ 53 \<Longrightarrow> round64 (numeral v) = Finite (numeral v)"
  using round64_of_int [of "numeral v"] by simp

lemma round64_one [simp]: "round64 1 = Finite 1"
  using round64_of_int [of 1] by simp

lemma round64_neg_numeral [simp]:
  "(numeral v :: int) < 2 ^ 53 \<Longrightarrow> round64 (- numeral v) = Finite (- numeral v)"
  using round64_of_int [of "- numeral v"] by simp

lemma round64_overflow_numeral [simp]:
  "(2 :: rat) ^ 1024 \<le> numeral v \<Longrightarrow> round64 (numeral v) = PosInfinity"
  by (rule round64_overflow) (simp add: pow2_def)

text \<open>Bounds that rounding keeps.\<close>

lemma round64_abs_le_pow2:
  assumes "\<bar>x\<bar> \<le> pow2 k" and "- 1074 \<le> k" and "k \<le> 1023"
  shows "\<exists>r. round64 x = Finite r \<and> \<bar>r\<bar> \<le> pow2 k"
proof -
  consider "x = 0" | "0 < x" | "x < 0" by linarith
  then show ?thesis
  proof cases
    case 1
    then show ?thesis by simp
  next
    case 2
    with assms have "\<exists>r. round64 x = Finite r \<and> 0 \<le> r \<and> r \<le> pow2 k"
      by (intro round64_pos_le_pow2) simp_all
    then show ?thesis by auto
  next
    case 3
    with assms have "\<exists>r. round64 (- x) = Finite r \<and> 0 \<le> r \<and> r \<le> pow2 k"
      by (intro round64_pos_le_pow2) simp_all
    then obtain r where r: "round64 (- x) = Finite r" "0 \<le> r" "r \<le> pow2 k"
      by blast
    have "round64 x = fneg (round64 (- x))"
      using round64_minus [of "- x"] by simp
    with r show ?thesis
      by (simp add: fneg_def)
  qed
qed

lemma fmul_finite:
  assumes "\<bar>p\<bar> \<le> pow2 (int j)" and "\<bar>x\<bar> \<le> pow2 (int k)" and "j + k \<le> 1023"
  shows "\<exists>r. fmul (Finite p) (round64 x) = Finite r"
proof -
  from assms(2,3) obtain t where t: "round64 x = Finite t" "\<bar>t\<bar> \<le> pow2 (int k)"
    using round64_abs_le_pow2 [of x "int k"] by auto
  have "\<bar>p * t\<bar> = \<bar>p\<bar> * \<bar>t\<bar>"
    by (rule abs_mult)
  also have "\<dots> \<le> pow2 (int j) * pow2 (int k)"
    using assms(1) t(2) by (intro mult_mono) simp_all
  also have "\<dots> = pow2 (int j + int k)"
    by (simp add: pow2_add)
  finally have "\<exists>r. round64 (p * t) = Finite r \<and> \<bar>r\<bar> \<le> pow2 (int j + int k)"
    using assms(3) by (intro round64_abs_le_pow2) simp_all
  with t(1) show ?thesis
    by auto
qed

text \<open>Adding the constant to a cost that is not negative gives at least the constant.\<close>

lemma fadd_floor:
  assumes "fle (Finite 0) n"
  shows "fle (Finite 1000000000) (fadd n (Finite 1000000000))"
proof (cases n)
  case (Finite a)
  with assms have a: "0 \<le> a"
    by (auto simp add: fle_def)
  have "(of_int 1000000000 :: rat) \<le> a + 1000000000"
    using a by simp
  then have "round64 (a + 1000000000) = PosInfinity
      \<or> (\<exists>r. round64 (a + 1000000000) = Finite r \<and> of_int 1000000000 \<le> r)"
    by (intro round64_ge_int) simp_all
  then show ?thesis
    using Finite by (auto simp add: fle_def isNaN_def)
next
  case PosInfinity
  then show ?thesis by (simp add: fle_def)
next
  case NegInfinity
  with assms show ?thesis by (simp add: fle_def)
next
  case NaN
  with assms show ?thesis by (simp add: fle_def isNaN_def)
qed

text \<open>
  With a price and an amount that are not negative, the native valuation is not negative,
  or it is \<^verbatim>\<open>NaN\<close> (price 0, and an amount that overflows).
\<close>

lemma native_valuation_nonneg:
  assumes "0 \<le> p" and "0 \<le> v"
  shows "fmul (Finite p) (round64 (of_int v / 10 ^ d)) = NaN
    \<or> fle (Finite 0) (fmul (Finite p) (round64 (of_int v / 10 ^ d)))"
proof -
  define x :: rat where "x = of_int v / 10 ^ d"
  have x: "0 \<le> x"
    using assms(2) by (simp add: x_def)
  have prod: "fle (Finite 0) (round64 (p * r))" if "0 \<le> r" for r
  proof (cases "p * r = 0")
    case True
    then have "round64 (p * r) = Finite 0"
      by (simp only: round64_zero)
    then show ?thesis by (simp add: fle_def isNaN_def)
  next
    case False
    then have "0 < p * r"
      using assms(1) that by (simp add: zero_less_mult_iff less_le)
    then have "round64 (p * r) = PosInfinity
        \<or> (\<exists>s. round64 (p * r) = Finite s \<and> 0 \<le> s)"
      by (rule round64_nonneg)
    then show ?thesis
      by (auto simp add: fle_def isNaN_def)
  qed
  have "fmul (Finite p) (round64 x) = NaN \<or> fle (Finite 0) (fmul (Finite p) (round64 x))"
  proof (cases "x = 0")
    case True
    then show ?thesis by (simp add: fle_def isNaN_def)
  next
    case False
    with x have "0 < x" by simp
    then have "round64 x = PosInfinity \<or> (\<exists>r. round64 x = Finite r \<and> 0 \<le> r)"
      by (rule round64_nonneg)
    then show ?thesis
    proof
      assume "round64 x = PosInfinity"
      then show ?thesis
        using assms(1) by (simp add: fle_def isNaN_def)
    next
      assume "\<exists>r. round64 x = Finite r \<and> 0 \<le> r"
      then show ?thesis
        using prod by auto
    qed
  qed
  then show ?thesis
    by (simp only: x_def)
qed

section \<open>Evaluation and basic facts\<close>

lemmas example_defs =
  exampleTONCOIN_def examplePrices_def tokenRequest_def nativeRequest_def
  nftRequest_def tiedRequest_def unknownTokenRequest_def nftWithAmountRequest_def
  zeroRequest_def roundingRequest_def overflowRequest_def unpricedRequest_def
  nearFloorRequest_def oneCoinRequest_def twoCoinRequest_def exampleTransfers_def
  exampleRows_def

lemmas display_defs =
  amountText_def exampleToDecimal_def exampleFormatCurrency_def

lemma toNumber_toBig: "toNumber (toBig v d) = round64 (of_int v / 10 ^ d)"
  by (simp add: toBig_def toNumber_def)

lemmas eval_defs =
  sortTransactions_def getTransactionCostForSorting_def toNumber_toBig NFT_FAKE_COST_USD_def
  compareRows_def sortedRow_def sortCompare_def fsub_def fneg_def isNaN_def

lemma example_native_entry: "examplePrices (slug exampleTONCOIN) \<noteq> None"
  by (simp add: example_defs)

lemma example_costs:
  "getTransactionCostForSorting exampleTONCOIN examplePrices tokenRequest = Inr (Finite 105)"
  "getTransactionCostForSorting exampleTONCOIN examplePrices nativeRequest = Inr (Finite 500)"
  "getTransactionCostForSorting exampleTONCOIN examplePrices nftRequest
    = Inr (Finite 1000000000)"
  "getTransactionCostForSorting exampleTONCOIN examplePrices tiedRequest = Inr (Finite 500)"
  "getTransactionCostForSorting exampleTONCOIN examplePrices unknownTokenRequest
    = Inr (Finite 5)"
  "getTransactionCostForSorting exampleTONCOIN examplePrices oneCoinRequest = Inr (Finite 5)"
  "getTransactionCostForSorting exampleTONCOIN examplePrices twoCoinRequest = Inr (Finite 10)"
  by (simp_all add: example_defs eval_defs)

lemma example_sorted:
  "sortTransactions exampleTONCOIN examplePrices (Some exampleTransfers)
    = Inr (Some exampleRows)"
  by (simp add: example_defs eval_defs)

lemma example_rows_index: "map index exampleRows = [2, 1, 3, 0]"
  by (simp add: exampleRows_def sortedRow_def)

lemma example_rows_cost:
  "map sortingCost exampleRows = [Finite 1000000000, Finite 500, Finite 500, Finite 105]"
  by (simp add: exampleRows_def sortedRow_def)

text \<open>
  0.07 coins at 5 USD. The amount converts to the double \<open>5044031582654956 / 2^56\<close>, and
  five times that rounds to \<open>6305039478318695 / 2^54\<close>, printed
  \<^verbatim>\<open>0.35000000000000003\<close>: not 0.35, and not the double nearest to 0.35 either.
\<close>

lemma rounding_conversion: "round64 (7 / 100) = Finite (5044031582654956 / 2 ^ 56)"
proof -
  have "round64 (7 / 100) =
    (if pow2 1024 \<le> of_int 5044031582654956 * pow2 (- 56) then PosInfinity
     else Finite (of_int 5044031582654956 * pow2 (- 56)))"
    by (rule round64_eval [where e = "- 4" and n = "7 * 2 ^ 56" and d = 100])
      (simp_all add: pow2_def)
  then show ?thesis
    by (simp add: pow2_def)
qed

lemma rounding_product:
  "round64 (5 * (5044031582654956 / 2 ^ 56)) = Finite (6305039478318695 / 2 ^ 54)"
proof -
  have "round64 (5 * (5044031582654956 / 2 ^ 56)) =
    (if pow2 1024 \<le> of_int 6305039478318695 * pow2 (- 54) then PosInfinity
     else Finite (of_int 6305039478318695 * pow2 (- 54)))"
    by (rule round64_eval [where e = "- 2" and n = "5 * 5044031582654956" and d = 4])
      (simp_all add: pow2_def)
  then show ?thesis
    by (simp add: pow2_def)
qed

lemma rounding_nearest: "round64 (35 / 100) = Finite (6305039478318694 / 2 ^ 54)"
proof -
  have "round64 (35 / 100) =
    (if pow2 1024 \<le> of_int 6305039478318694 * pow2 (- 54) then PosInfinity
     else Finite (of_int 6305039478318694 * pow2 (- 54)))"
    by (rule round64_eval [where e = "- 2" and n = "35 * 2 ^ 54" and d = 100])
      (simp_all add: pow2_def)
  then show ?thesis
    by (simp add: pow2_def)
qed

lemma rounding_cost:
  "getTransactionCostForSorting exampleTONCOIN examplePrices roundingRequest
    = Inr (Finite (6305039478318695 / 2 ^ 54))"
proof -
  have "(70000000 / 10 ^ 9 :: rat) = 7 / 100"
    by simp
  then have "toNumber (toBig 70000000 9) = Finite (5044031582654956 / 2 ^ 56)"
    using rounding_conversion by (simp add: toNumber_toBig)
  then show ?thesis
    using rounding_product
    by (simp add: getTransactionCostForSorting_def example_defs)
qed

text \<open>
  199,999,999.999999999 coins at 5 USD. The amount converts to the double 200,000,000, so
  the cost is 1,000,000,000, the constant itself, although the exact product is below it.
\<close>

lemma near_floor_conversion: "round64 (199999999999999999 / 1000000000) = Finite 200000000"
proof -
  have "round64 (199999999999999999 / 1000000000) =
    (if pow2 1024 \<le> of_int 6710886400000000 * pow2 (- 25) then PosInfinity
     else Finite (of_int 6710886400000000 * pow2 (- 25)))"
    by (rule round64_eval
        [where e = 27 and n = "199999999999999999 * 2 ^ 25" and d = 1000000000])
      (simp_all add: pow2_def)
  then show ?thesis
    by (simp add: pow2_def)
qed

lemma near_floor_cost:
  "getTransactionCostForSorting exampleTONCOIN examplePrices nearFloorRequest
    = Inr (Finite 1000000000)"
proof -
  have "(199999999999999999 / 10 ^ 9 :: rat) = 199999999999999999 / 1000000000"
    by simp
  then have "toNumber (toBig 199999999999999999 9) = Finite 200000000"
    using near_floor_conversion by (simp add: toNumber_toBig)
  then show ?thesis
    by (simp add: getTransactionCostForSorting_def example_defs)
qed

subsection \<open>Rows and their requests\<close>

lemma truncate_sortedRow: "ApiDappTransfer.truncate (sortedRow transaction i c) = transaction"
  by (simp add: sortedRow_def ApiDappTransfer.defs)

lemma index_sortedRow: "index (sortedRow transaction i c) = i"
  and sortingCost_sortedRow: "sortingCost (sortedRow transaction i c) = c"
  by (simp_all add: sortedRow_def)

lemma truncate_fields:
  "displayedAmount (ApiDappTransfer.truncate r) = displayedAmount r"
  "fullFee (ApiDappTransfer.truncate r) = fullFee r"
  "displayedToAddress (ApiDappTransfer.truncate r) = displayedToAddress r"
  "payload (ApiDappTransfer.truncate r) = payload r"
  "isScam (ApiDappTransfer.truncate r) = isScam r"
  by (simp_all add: ApiDappTransfer.defs)

lemma sortedRow_of_source:
  assumes "ApiDappTransfer.truncate row = t"
  shows "row = sortedRow t (index row) (sortingCost row)"
proof -
  have "row = \<lparr>displayedAmount = displayedAmount row, fullFee = fullFee row,
      displayedToAddress = displayedToAddress row, payload = payload row,
      isScam = isScam row, index = index row, sortingCost = sortingCost row\<rparr>"
    by simp
  moreover have "displayedAmount row = displayedAmount t" "fullFee row = fullFee t"
    "displayedToAddress row = displayedToAddress t" "payload row = payload t"
    "isScam row = isScam t"
    by (simp_all add: assms [symmetric] truncate_fields)
  ultimately show ?thesis
    by (simp add: sortedRow_def)
qed

subsection \<open>The cost function\<close>

lemma cost_defined:
  "tokensBySlug (slug TONCOIN) \<noteq> None \<Longrightarrow>
    \<exists>cost. getTransactionCostForSorting TONCOIN tokensBySlug transaction = Inr cost"
  by (cases "payload transaction")
    (auto simp add: getTransactionCostForSorting_def Let_def split: option.split)

lemma cost_of_sortedRow:
  "getTransactionCostForSorting TONCOIN tokensBySlug (sortedRow transaction i c)
    = getTransactionCostForSorting TONCOIN tokensBySlug transaction"
  by (simp add: getTransactionCostForSorting_def sortedRow_def Let_def
      cong: option.case_cong if_cong)

lemma cost_truncate:
  "getTransactionCostForSorting TONCOIN tokensBySlug (ApiDappTransfer.truncate r)
    = getTransactionCostForSorting TONCOIN tokensBySlug r"
  by (simp add: getTransactionCostForSorting_def ApiDappTransfer.defs Let_def
      cong: option.case_cong if_cong)

lemma cost_nft:
  assumes "tokensBySlug (slug TONCOIN) = Some ton"
    and "isNftTransferPayload (payload transaction)"
  shows "getTransactionCostForSorting TONCOIN tokensBySlug transaction =
    Inr (fadd
      (fmul (priceUsd (quote ton))
        (round64 (of_int (displayedAmount transaction + fullFee transaction)
           / 10 ^ decimals TONCOIN)))
      NFT_FAKE_COST_USD)"
  using assms
  by (cases "payload transaction")
    (simp_all add: getTransactionCostForSorting_def toNumber_toBig)

lemma cost_isDouble:
  "getTransactionCostForSorting TONCOIN tokensBySlug transaction = Inr c \<Longrightarrow> isDouble c"
  by (cases "payload transaction")
    (auto simp add: getTransactionCostForSorting_def Let_def split: option.splits)

text \<open>
  C1. When the price table has an entry for the native coin, the sorting cost of a request is
  the native price times the decimal value of \<open>displayedAmount + fullFee\<close> (scaled by the
  native coin's decimals), plus the token's price times the decimal value of the token
  amount (scaled by the token's decimals) exactly when the payload is a token transfer whose
  slug is in the table, plus 1,000,000,000 exactly when the payload is an NFT transfer. A
  request without payload has the native term only. The products and sums are those of the
  code, on doubles: a decimal value is read as the nearest double, and every product and sum
  is rounded.
\<close>

theorem sortingCost_value:
  assumes "tokensBySlug (slug TONCOIN) = Some ton"
  shows "getTransactionCostForSorting TONCOIN tokensBySlug transaction =
    Inr (let native =
           fmul (priceUsd (quote ton))
             (round64 (of_int (displayedAmount transaction + fullFee transaction)
                / 10 ^ decimals TONCOIN))
         in case payload transaction of
              TokenTransfer tokenSlug amount \<Rightarrow>
                (case tokensBySlug tokenSlug of
                   Some token \<Rightarrow>
                     fadd native
                       (fmul (priceUsd (quote token))
                          (round64 (of_int amount / 10 ^ decimals token)))
                 | None \<Rightarrow> native)
            | NftTransfer n \<Rightarrow> fadd native (Finite 1000000000)
            | NoPayload \<Rightarrow> native)"
  using assms
  by (cases "payload transaction")
    (simp_all add: getTransactionCostForSorting_def toNumber_toBig NFT_FAKE_COST_USD_def Let_def
      split: option.split)

theorem sortingCost_value_witness:
  "examplePrices (slug exampleTONCOIN)
     = Some \<lparr>decimals = 9, symbol = ''TON'', quote = \<lparr>priceUsd = Finite 5\<rparr>\<rparr>
   \<and> getTransactionCostForSorting exampleTONCOIN examplePrices tokenRequest
       = Inr (Finite 105)
   \<and> getTransactionCostForSorting exampleTONCOIN examplePrices nftRequest
       = Inr (Finite 1000000000)
   \<and> getTransactionCostForSorting exampleTONCOIN examplePrices nativeRequest
       = Inr (Finite 500)
   \<and> getTransactionCostForSorting exampleTONCOIN examplePrices roundingRequest
       = Inr (Finite (6305039478318695 / 2 ^ 54))"
proof -
  have h: "examplePrices (slug exampleTONCOIN)
     = Some \<lparr>decimals = 9, symbol = ''TON'', quote = \<lparr>priceUsd = Finite 5\<rparr>\<rparr>"
    by (simp add: example_defs)
  note inst = sortingCost_value
    [where tokensBySlug = examplePrices and TONCOIN = exampleTONCOIN, OF h]
  have "getTransactionCostForSorting exampleTONCOIN examplePrices tokenRequest
      = Inr (Finite 105)"
    using inst [of tokenRequest] by (simp add: example_defs)
  moreover have "getTransactionCostForSorting exampleTONCOIN examplePrices nftRequest
      = Inr (Finite 1000000000)"
    using inst [of nftRequest] by (simp add: example_defs)
  moreover have "getTransactionCostForSorting exampleTONCOIN examplePrices nativeRequest
      = Inr (Finite 500)"
    using inst [of nativeRequest] by (simp add: example_defs)
  moreover have "getTransactionCostForSorting exampleTONCOIN examplePrices roundingRequest
      = Inr (Finite (6305039478318695 / 2 ^ 54))"
    by (rule rounding_cost)
  ultimately show ?thesis
    using h by simp
qed

text \<open>
  C6, as stated, fails: the cost need not be finite. A request whose payload is a token
  transfer with a slug that the table does not have, and whose \<open>displayedAmount\<close> is
  \<open>10^320\<close>, meets the claim's conditions; the amount converts to \<^verbatim>\<open>Infinity\<close>, and so
  does its product with the native price of 5.
\<close>

theorem unknown_token_cost_counterexample:
  "payload overflowRequest = TokenTransfer ''Y'' 700
   \<and> examplePrices ''Y'' = None
   \<and> examplePrices (slug exampleTONCOIN)
       = Some \<lparr>decimals = 9, symbol = ''TON'', quote = \<lparr>priceUsd = Finite 5\<rparr>\<rparr>
   \<and> getTransactionCostForSorting exampleTONCOIN examplePrices overflowRequest
       = Inr PosInfinity"
  by (simp add: example_defs eval_defs)

text \<open>
  C6, amended. For a request whose payload is a token transfer with a slug that the price
  table does not have, the cost computation does not fail when the native coin has its
  entry: the sorting cost is the native-only valuation, the native price times the decimal
  value of \<open>displayedAmount + fullFee\<close> (the product of doubles). It is finite whenever the
  native price is finite and at most \<open>2^j\<close> in magnitude, and the decimal value at most
  \<open>2^k\<close> in magnitude, with \<open>j + k \<le> 1023\<close>.
\<close>

theorem unknown_token_cost:
  assumes "payload transaction = TokenTransfer tokenSlug amount"
    and "tokensBySlug tokenSlug = None"
    and "tokensBySlug (slug TONCOIN) = Some ton"
  shows "getTransactionCostForSorting TONCOIN tokensBySlug transaction =
      Inr (fmul (priceUsd (quote ton))
             (round64 (of_int (displayedAmount transaction + fullFee transaction)
                / 10 ^ decimals TONCOIN)))
    \<and> (\<forall>p j k. priceUsd (quote ton) = Finite p \<and> \<bar>p\<bar> \<le> 2 ^ j
          \<and> \<bar>of_int (displayedAmount transaction + fullFee transaction)
               / 10 ^ decimals TONCOIN :: rat\<bar> \<le> 2 ^ k
          \<and> j + k \<le> 1023
        \<longrightarrow> (\<exists>r. getTransactionCostForSorting TONCOIN tokensBySlug transaction
                  = Inr (Finite r)))"
proof -
  let ?x = "of_int (displayedAmount transaction + fullFee transaction)
    / 10 ^ decimals TONCOIN :: rat"
  have cost: "getTransactionCostForSorting TONCOIN tokensBySlug transaction =
      Inr (fmul (priceUsd (quote ton)) (round64 ?x))"
    using assms by (simp add: getTransactionCostForSorting_def toNumber_toBig)
  have fin: "\<exists>r. fmul (priceUsd (quote ton)) (round64 ?x) = Finite r"
    if "priceUsd (quote ton) = Finite p" "\<bar>p\<bar> \<le> 2 ^ j" "\<bar>?x\<bar> \<le> 2 ^ k" "j + k \<le> 1023"
    for p :: rat and j k :: nat
  proof -
    have "\<bar>p\<bar> \<le> pow2 (int j)" "\<bar>?x\<bar> \<le> pow2 (int k)"
      using that(2,3) by (simp_all add: pow2_def)
    then have "\<exists>r. fmul (Finite p) (round64 ?x) = Finite r"
      using that(4) by (rule fmul_finite)
    with that(1) show ?thesis by simp
  qed
  show ?thesis
  proof (intro conjI allI impI)
    show "getTransactionCostForSorting TONCOIN tokensBySlug transaction =
      Inr (fmul (priceUsd (quote ton)) (round64 ?x))"
      by (rule cost)
  next
    fix p :: rat and j k :: nat
    assume "priceUsd (quote ton) = Finite p \<and> \<bar>p\<bar> \<le> 2 ^ j \<and> \<bar>?x\<bar> \<le> 2 ^ k
      \<and> j + k \<le> 1023"
    then obtain r where "fmul (priceUsd (quote ton)) (round64 ?x) = Finite r"
      using fin by blast
    then show "\<exists>r. getTransactionCostForSorting TONCOIN tokensBySlug transaction
        = Inr (Finite r)"
      using cost by simp
  qed
qed

theorem unknown_token_cost_witness:
  "payload unknownTokenRequest = TokenTransfer ''Y'' 700
   \<and> examplePrices ''Y'' = None
   \<and> examplePrices (slug exampleTONCOIN)
       = Some \<lparr>decimals = 9, symbol = ''TON'', quote = \<lparr>priceUsd = Finite 5\<rparr>\<rparr>
   \<and> \<bar>5 :: rat\<bar> \<le> 2 ^ 3
   \<and> \<bar>of_int (displayedAmount unknownTokenRequest + fullFee unknownTokenRequest)
        / 10 ^ decimals exampleTONCOIN :: rat\<bar> \<le> 2 ^ 0
   \<and> getTransactionCostForSorting exampleTONCOIN examplePrices unknownTokenRequest
       = Inr (Finite 5)
   \<and> (\<exists>r. getTransactionCostForSorting exampleTONCOIN examplePrices unknownTokenRequest
         = Inr (Finite r))"
proof -
  have p: "payload unknownTokenRequest = TokenTransfer ''Y'' 700"
    by (simp add: example_defs)
  have u: "examplePrices ''Y'' = None"
    by (simp add: example_defs)
  have h: "examplePrices (slug exampleTONCOIN)
     = Some \<lparr>decimals = 9, symbol = ''TON'', quote = \<lparr>priceUsd = Finite 5\<rparr>\<rparr>"
    by (simp add: example_defs)
  have b: "\<bar>5 :: rat\<bar> \<le> 2 ^ 3"
    "\<bar>of_int (displayedAmount unknownTokenRequest + fullFee unknownTokenRequest)
        / 10 ^ decimals exampleTONCOIN :: rat\<bar> \<le> 2 ^ 0"
    by (simp_all add: example_defs)
  note inst = unknown_token_cost
    [where transaction = unknownTokenRequest and tokensBySlug = examplePrices
       and TONCOIN = exampleTONCOIN, OF p u h]
  have "getTransactionCostForSorting exampleTONCOIN examplePrices unknownTokenRequest =
      Inr (fmul (Finite 5)
             (round64 (of_int (displayedAmount unknownTokenRequest
                + fullFee unknownTokenRequest) / 10 ^ decimals exampleTONCOIN)))"
    using inst [THEN conjunct1] by simp
  then have v: "getTransactionCostForSorting exampleTONCOIN examplePrices unknownTokenRequest
      = Inr (Finite 5)"
    by (simp add: example_defs)
  have "\<exists>r. getTransactionCostForSorting exampleTONCOIN examplePrices unknownTokenRequest
      = Inr (Finite r)"
    using inst [THEN conjunct2, rule_format, of 5 3 0] b by simp
  with p u h b v show ?thesis
    by simp
qed

text \<open>
  C7. When the price table has no entry for the native coin's slug, the cost computation
  raises an error for every request and returns no valuation; when the entry is there, the
  cost computation never fails.
\<close>

theorem native_entry_decides_failure:
  "(tokensBySlug (slug TONCOIN) = None \<longrightarrow>
      getTransactionCostForSorting TONCOIN tokensBySlug transaction = Inl TypeError)
   \<and> (tokensBySlug (slug TONCOIN) \<noteq> None \<longrightarrow>
      (\<exists>cost. getTransactionCostForSorting TONCOIN tokensBySlug transaction = Inr cost))"
  by (cases "payload transaction")
    (auto simp add: getTransactionCostForSorting_def Let_def split: option.split)

theorem native_entry_decides_failure_witness:
  "Map.empty (slug exampleTONCOIN) = None
   \<and> getTransactionCostForSorting exampleTONCOIN Map.empty tokenRequest = Inl TypeError
   \<and> examplePrices (slug exampleTONCOIN) \<noteq> None
   \<and> (\<exists>cost. getTransactionCostForSorting exampleTONCOIN examplePrices tokenRequest
         = Inr cost)"
proof -
  have "getTransactionCostForSorting exampleTONCOIN Map.empty tokenRequest = Inl TypeError"
    using native_entry_decides_failure
      [where tokensBySlug = Map.empty and TONCOIN = exampleTONCOIN
         and transaction = tokenRequest]
    by simp
  moreover have
    "\<exists>cost. getTransactionCostForSorting exampleTONCOIN examplePrices tokenRequest = Inr cost"
    using native_entry_decides_failure
      [where tokensBySlug = examplePrices and TONCOIN = exampleTONCOIN
         and transaction = tokenRequest]
      example_native_entry
    by blast
  ultimately show ?thesis
    using example_native_entry by simp
qed

section \<open>The mapped rows\<close>

lemma mapRows_total:
  "tokensBySlug (slug TONCOIN) \<noteq> None \<Longrightarrow> \<exists>rows. mapRows TONCOIN tokensBySlug i ts = Inr rows"
proof (induction ts arbitrary: i)
  case Nil
  show ?case by simp
next
  case (Cons t ts)
  from Cons.prems obtain c where
    "getTransactionCostForSorting TONCOIN tokensBySlug t = Inr c"
    using cost_defined by blast
  moreover from Cons obtain rows where "mapRows TONCOIN tokensBySlug (Suc i) ts = Inr rows"
    by blast
  ultimately show ?case by simp
qed

lemma mapRows_index:
  "mapRows TONCOIN tokensBySlug i ts = Inr rows \<Longrightarrow> map index rows = [i ..< i + length ts]"
proof (induction ts arbitrary: i rows)
  case Nil
  then show ?case by simp
next
  case (Cons t ts)
  from Cons.prems obtain c rest where
    rows: "rows = sortedRow t i c # rest" and
    rest: "mapRows TONCOIN tokensBySlug (Suc i) ts = Inr rest"
    by (auto split: sum.splits)
  have "map index rest = [Suc i ..< Suc i + length ts]"
    using Cons.IH [OF rest] .
  moreover have "[i ..< Suc i + length ts] = i # [Suc i ..< Suc i + length ts]"
    by (rule upt_conv_Cons) simp
  moreover have "i + length (t # ts) = Suc i + length ts"
    by simp
  ultimately have "map index rows = [i ..< Suc i + length ts]"
    using rows by (simp only: list.map index_sortedRow)
  then show ?case
    by (simp only: \<open>i + length (t # ts) = Suc i + length ts\<close>)
qed

lemma mapRows_truncate:
  "mapRows TONCOIN tokensBySlug i ts = Inr rows \<Longrightarrow> map ApiDappTransfer.truncate rows = ts"
proof (induction ts arbitrary: i rows)
  case Nil
  then show ?case by simp
next
  case (Cons t ts)
  then show ?case
    by (auto simp add: truncate_sortedRow split: sum.splits)
qed

lemma mapRows_cost:
  "mapRows TONCOIN tokensBySlug i ts = Inr rows \<Longrightarrow> r \<in> set rows \<Longrightarrow>
    getTransactionCostForSorting TONCOIN tokensBySlug r = Inr (sortingCost r)"
proof (induction ts arbitrary: i rows)
  case Nil
  then show ?case by simp
next
  case (Cons t ts)
  then show ?case
    by (auto simp add: cost_of_sortedRow sortingCost_sortedRow split: sum.splits)
qed

lemma mapRows_length:
  "mapRows TONCOIN tokensBySlug i ts = Inr rows \<Longrightarrow> length rows = length ts"
  using mapRows_truncate [of TONCOIN tokensBySlug i ts rows] by (metis length_map)

lemma mapRows_index_increasing:
  assumes "mapRows TONCOIN tokensBySlug i ts = Inr rows"
  shows "sorted_wrt (\<lambda>a b. index a < index b) rows"
proof -
  have "sorted_wrt (<) (map index rows)"
    using mapRows_index [OF assms] by simp
  then show ?thesis
    by (simp add: sorted_wrt_map)
qed

lemma mapRows_source:
  assumes "mapRows TONCOIN tokensBySlug 0 ts = Inr mapped" and "r \<in> set mapped"
  shows "index r < length ts \<and> ApiDappTransfer.truncate r = ts ! index r"
proof -
  from assms(2) obtain k where k: "k < length mapped" and r: "r = mapped ! k"
    by (auto simp add: in_set_conv_nth)
  have len: "length mapped = length ts"
    using assms(1) by (rule mapRows_length)
  have "index r = map index mapped ! k"
    using k r by simp
  also have "\<dots> = k"
    using mapRows_index [OF assms(1)] k len by simp
  finally have i: "index r = k" .
  have "ApiDappTransfer.truncate r = map ApiDappTransfer.truncate mapped ! k"
    using k r by simp
  also have "\<dots> = ts ! k"
    using mapRows_truncate [OF assms(1)] by simp
  finally show ?thesis
    using i k len by simp
qed

lemma mapRows_row:
  assumes "mapRows TONCOIN tokensBySlug 0 ts = Inr mapped" and "r \<in> set mapped"
  shows "index r < length ts \<and> ApiDappTransfer.truncate r = ts ! index r
    \<and> getTransactionCostForSorting TONCOIN tokensBySlug (ts ! index r) = Inr (sortingCost r)"
proof -
  have src: "index r < length ts" "ApiDappTransfer.truncate r = ts ! index r"
    using mapRows_source [OF assms] by simp_all
  have "getTransactionCostForSorting TONCOIN tokensBySlug r = Inr (sortingCost r)"
    using assms by (rule mapRows_cost)
  then have "getTransactionCostForSorting TONCOIN tokensBySlug (ts ! index r)
      = Inr (sortingCost r)"
    using cost_truncate [of TONCOIN tokensBySlug r] src(2) by simp
  with src show ?thesis
    by simp
qed

text \<open>A row's cost is a double; it is a number when no cost of the list is \<^verbatim>\<open>NaN\<close>.\<close>

lemma mapRows_numeric:
  assumes m: "mapRows TONCOIN tokensBySlug i ts = Inr rows"
    and n: "\<forall>t \<in> set ts. getTransactionCostForSorting TONCOIN tokensBySlug t \<noteq> Inr NaN"
    and r: "r \<in> set rows"
  shows "numericRow r"
proof -
  have c: "getTransactionCostForSorting TONCOIN tokensBySlug r = Inr (sortingCost r)"
    using m r by (rule mapRows_cost)
  then have d: "isDouble (sortingCost r)"
    by (rule cost_isDouble)
  have "ApiDappTransfer.truncate r \<in> set (map ApiDappTransfer.truncate rows)"
    using r by simp
  then have "ApiDappTransfer.truncate r \<in> set ts"
    using mapRows_truncate [OF m] by simp
  with n have "getTransactionCostForSorting TONCOIN tokensBySlug (ApiDappTransfer.truncate r)
      \<noteq> Inr NaN"
    by blast
  then have "sortingCost r \<noteq> NaN"
    using c cost_truncate [of TONCOIN tokensBySlug r] by auto
  with d show ?thesis
    by (simp add: numericRow_def isNaN_def)
qed

section \<open>The sort\<close>

lemma mset_insertBy: "mset (insertBy cmp a bs) = add_mset a (mset bs)"
  by (induction bs) simp_all

lemma mset_arraySort: "mset (arraySort cmp as) = mset as"
  by (induction as) (simp_all add: mset_insertBy)

lemma set_arraySort: "set (arraySort cmp as) = set as"
  using mset_arraySort [of cmp as] by (metis set_mset_mset)

lemma length_arraySort: "length (arraySort cmp as) = length as"
  using mset_arraySort [of cmp as] by (metis size_mset)

lemma rowBefore_D:
  assumes "rowBefore a b" and "numericRow a"
  shows "fle (sortingCost b) (sortingCost a)"
    and "sortingCost a = sortingCost b \<Longrightarrow> index a < index b"
  using assms by (auto simp add: rowBefore_def fle_def numericRow_def)

text \<open>
  On rows whose costs are numbers, the comparator's result is positive exactly when the
  first row costs less than the second.
\<close>

lemma compareRows_positive:
  assumes "numericRow a" and "numericRow b"
  shows "fless (Finite 0) (sortCompare (compareRows a b))
    \<longleftrightarrow> fless (sortingCost a) (sortingCost b)"
  using assms unfolding compareRows_def numericRow_def
  by (intro compare_positive_iff) simp_all

text \<open>
  Inserting a row whose index is below every index of a list in row order gives a list in
  row order: the row stops in front of the first row that does not cost more.
\<close>

lemma rowBefore_insertBy:
  assumes "sorted_wrt rowBefore bs" and "\<forall>b \<in> set bs. index a < index b"
    and "numericRow a" and "\<forall>b \<in> set bs. numericRow b"
  shows "sorted_wrt rowBefore (insertBy compareRows a bs)"
  using assms
proof (induction bs)
  case Nil
  then show ?case by simp
next
  case (Cons b bs)
  have na: "numericRow a" and nb: "numericRow b"
    using Cons.prems(3,4) by simp_all
  show ?case
  proof (cases "fless (sortingCost a) (sortingCost b)")
    case False
    then have stop: "\<not> fless (Finite 0) (sortCompare (compareRows a b))"
      using compareRows_positive [OF na nb] by simp
    have ab: "fle (sortingCost b) (sortingCost a)"
      using False na nb by (intro not_fless_fle) (simp_all add: numericRow_def)
    have "rowBefore a x" if "x \<in> set (b # bs)" for x
    proof -
      have "fle (sortingCost x) (sortingCost b)"
      proof (cases "x = b")
        case True
        then show ?thesis
          using nb by (simp add: fle_def numericRow_def)
      next
        case False
        with that have "rowBefore b x"
          using Cons.prems(1) by auto
        then show ?thesis
          using nb by (rule rowBefore_D)
      qed
      then have "fle (sortingCost x) (sortingCost a)"
        using ab by (rule fle_trans)
      moreover have "index a < index x"
        using that Cons.prems(2) by auto
      ultimately show ?thesis
        by (auto simp add: rowBefore_def fle_def)
    qed
    with stop Cons.prems(1) show ?thesis by simp
  next
    case True
    then have pass: "fless (Finite 0) (sortCompare (compareRows a b))"
      using compareRows_positive [OF na nb] by simp
    from True have ba: "rowBefore b a"
      by (simp add: rowBefore_def)
    have "sorted_wrt rowBefore (insertBy compareRows a bs)"
      using Cons by simp
    moreover have "\<forall>x \<in> set (insertBy compareRows a bs). rowBefore b x"
    proof
      fix x
      assume "x \<in> set (insertBy compareRows a bs)"
      then have "x \<in># mset (insertBy compareRows a bs)" by simp
      then have "x = a \<or> x \<in> set bs" by (simp add: mset_insertBy)
      then show "rowBefore b x"
        using ba Cons.prems(1) by auto
    qed
    ultimately show ?thesis using pass by simp
  qed
qed

lemma rowBefore_arraySort:
  "sorted_wrt (\<lambda>a b. index a < index b) rows \<Longrightarrow> \<forall>r \<in> set rows. numericRow r \<Longrightarrow>
    sorted_wrt rowBefore (arraySort compareRows rows)"
proof (induction rows)
  case Nil
  show ?case by simp
next
  case (Cons a rows)
  then show ?case
    by (simp add: rowBefore_insertBy set_arraySort)
qed

text \<open>
  On rows whose costs are numbers, the model of \<^verbatim>\<open>sort\<close> does not depend on insertion
  being the algorithm: rows have one arrangement only in row order, so every stable sort by
  this comparator returns the list that \<open>arraySort\<close> returns.
\<close>

lemma rowBefore_asym: "rowBefore a b \<Longrightarrow> \<not> rowBefore b a"
  unfolding rowBefore_def
  by (metis fless_asym fless_irrefl less_asym)

lemma row_order_unique:
  assumes "sorted_wrt rowBefore xs" and "sorted_wrt rowBefore ys" and "mset xs = mset ys"
  shows "xs = ys"
  using assms
proof (induction xs arbitrary: ys)
  case Nil
  then show ?case by simp
next
  case (Cons x xs)
  from Cons.prems(3) obtain y ys' where ys: "ys = y # ys'"
    by (cases ys) auto
  have "x = y"
  proof (rule ccontr)
    assume ne: "x \<noteq> y"
    have "x \<in># mset ys"
      using Cons.prems(3) by (metis list.set_intros(1) set_mset_mset)
    then have "x \<in> set ys'"
      using ne ys by simp
    then have yx: "rowBefore y x"
      using Cons.prems(2) ys by simp
    have "y \<in># mset (x # xs)"
      using Cons.prems(3) ys by (metis list.set_intros(1) set_mset_mset)
    then have "y \<in> set xs"
      using ne by simp
    then have "rowBefore x y"
      using Cons.prems(1) by simp
    with yx show False
      using rowBefore_asym by blast
  qed
  moreover have "xs = ys'"
  proof (rule Cons.IH)
    show "sorted_wrt rowBefore xs"
      using Cons.prems(1) by simp
    show "sorted_wrt rowBefore ys'"
      using Cons.prems(2) ys by simp
    show "mset xs = mset ys'"
      using Cons.prems(3) ys \<open>x = y\<close> by simp
  qed
  ultimately show ?case
    using ys by simp
qed

lemma arraySort_unique:
  assumes "sorted_wrt (\<lambda>a b. index a < index b) rows" and "\<forall>r \<in> set rows. numericRow r"
    and "mset out = mset rows" and "sorted_wrt rowBefore out"
  shows "out = arraySort compareRows rows"
proof (rule row_order_unique)
  show "sorted_wrt rowBefore out"
    by (rule assms(4))
  show "sorted_wrt rowBefore (arraySort compareRows rows)"
    using assms(1,2) by (rule rowBefore_arraySort)
  show "mset out = mset (arraySort compareRows rows)"
    using assms(3) by (simp add: mset_arraySort)
qed

section \<open>Sorting a list of requests\<close>

text \<open>
  The call returns a list exactly when the list is empty or the native coin has its entry:
  on any other input the first cost computation raises.
\<close>

lemma sortTransactions_present:
  assumes "ts = [] \<or> tokensBySlug (slug TONCOIN) \<noteq> None"
  shows "\<exists>mapped. mapRows TONCOIN tokensBySlug 0 ts = Inr mapped
    \<and> sortTransactions TONCOIN tokensBySlug (Some ts)
        = Inr (Some (arraySort compareRows mapped))"
proof -
  have "\<exists>mapped. mapRows TONCOIN tokensBySlug 0 ts = Inr mapped"
  proof (cases "ts = []")
    case True
    then show ?thesis by simp
  next
    case False
    with assms show ?thesis
      using mapRows_total by blast
  qed
  then show ?thesis
    by (auto simp add: sortTransactions_def)
qed

lemma sorted_row_of_request:
  assumes m: "mapRows TONCOIN tokensBySlug 0 ts = Inr mapped" and a: "a < length ts"
  shows "\<exists>i < length (arraySort compareRows mapped).
    index (arraySort compareRows mapped ! i) = a
    \<and> ApiDappTransfer.truncate (arraySort compareRows mapped ! i) = ts ! a
    \<and> getTransactionCostForSorting TONCOIN tokensBySlug (ts ! a)
        = Inr (sortingCost (arraySort compareRows mapped ! i))"
proof -
  have len: "length mapped = length ts"
    using m by (rule mapRows_length)
  let ?r = "mapped ! a"
  have mem: "?r \<in> set mapped"
    using a len by simp
  have "index ?r = map index mapped ! a"
    using a len by simp
  then have ia: "index ?r = a"
    using mapRows_index [OF m] a by simp
  have tr: "ApiDappTransfer.truncate ?r = ts ! a"
    using mapRows_source [OF m mem] ia by simp
  have "getTransactionCostForSorting TONCOIN tokensBySlug ?r = Inr (sortingCost ?r)"
    using m mem by (rule mapRows_cost)
  then have c: "getTransactionCostForSorting TONCOIN tokensBySlug (ts ! a) = Inr (sortingCost ?r)"
    using cost_truncate [of TONCOIN tokensBySlug ?r] tr by simp
  from mem have "?r \<in> set (arraySort compareRows mapped)"
    by (simp add: set_arraySort)
  then obtain i where "i < length (arraySort compareRows mapped)"
    and "arraySort compareRows mapped ! i = ?r"
    by (auto simp add: in_set_conv_nth)
  with ia tr c show ?thesis
    by auto
qed

lemma sorted_rows_in_order:
  assumes m: "mapRows TONCOIN tokensBySlug 0 ts = Inr mapped"
    and n: "\<forall>t \<in> set ts. getTransactionCostForSorting TONCOIN tokensBySlug t \<noteq> Inr NaN"
  shows "sorted_wrt rowBefore (arraySort compareRows mapped)"
    and "\<forall>r \<in> set (arraySort compareRows mapped). numericRow r"
proof -
  have num: "\<forall>r \<in> set mapped. numericRow r"
    using mapRows_numeric [OF m n] by blast
  show "sorted_wrt rowBefore (arraySort compareRows mapped)"
    using mapRows_index_increasing [OF m] num by (rule rowBefore_arraySort)
  show "\<forall>r \<in> set (arraySort compareRows mapped). numericRow r"
    using num by (simp add: set_arraySort)
qed

text \<open>
  C5. When the transfer list is absent, \<open>sortTransactions\<close> returns the absent value and
  raises nothing; when the list is present and empty, it returns the empty list.
\<close>

theorem sortTransactions_absent_empty:
  "sortTransactions TONCOIN tokensBySlug None = Inr None
   \<and> sortTransactions TONCOIN tokensBySlug (Some []) = Inr (Some [])"
  by (simp add: sortTransactions_def)

text \<open>
  C3. For a list that is present (and on which the call returns: an empty list, or any list
  when the native coin has its price entry), the index of every output row is the position
  of its source request in the input list, not its position after sorting: the row is the
  request at that position. The output has one row for each request, and the indices of the
  output rows are pairwise distinct.
\<close>

theorem index_is_original_position:
  assumes "ts = [] \<or> tokensBySlug (slug TONCOIN) \<noteq> None"
  shows "\<exists>rows. sortTransactions TONCOIN tokensBySlug (Some ts) = Inr (Some rows)
    \<and> length rows = length ts
    \<and> distinct (map index rows)
    \<and> (\<forall>r \<in> set rows.
          index r < length ts \<and> ApiDappTransfer.truncate r = ts ! index r)"
proof -
  from assms sortTransactions_present [of ts tokensBySlug TONCOIN] obtain mapped where
    m: "mapRows TONCOIN tokensBySlug 0 ts = Inr mapped" and
    s: "sortTransactions TONCOIN tokensBySlug (Some ts)
          = Inr (Some (arraySort compareRows mapped))"
    by blast
  let ?rows = "arraySort compareRows mapped"
  have "length ?rows = length ts"
    using mapRows_length [OF m] by (simp add: length_arraySort)
  moreover have "distinct (map index ?rows)"
  proof -
    have "mset (map index ?rows) = mset (map index mapped)"
      by (simp add: mset_arraySort)
    moreover have "distinct (map index mapped)"
      using mapRows_index [OF m] by simp
    ultimately show ?thesis
      using mset_eq_imp_distinct_iff by blast
  qed
  moreover have "\<forall>r \<in> set ?rows.
      index r < length ts \<and> ApiDappTransfer.truncate r = ts ! index r"
    using mapRows_source [OF m] by (simp add: set_arraySort)
  ultimately show ?thesis
    using s by blast
qed

theorem index_is_original_position_witness:
  "(exampleTransfers = [] \<or> examplePrices (slug exampleTONCOIN) \<noteq> None)
   \<and> sortTransactions exampleTONCOIN examplePrices (Some exampleTransfers)
       = Inr (Some exampleRows)
   \<and> map index exampleRows = [2, 1, 3, 0]
   \<and> length exampleRows = length exampleTransfers
   \<and> distinct (map index exampleRows)
   \<and> map ApiDappTransfer.truncate exampleRows
       = map (\<lambda>r. exampleTransfers ! index r) exampleRows"
proof -
  have h: "exampleTransfers = [] \<or> examplePrices (slug exampleTONCOIN) \<noteq> None"
    using example_native_entry by simp
  from index_is_original_position
    [where ts = exampleTransfers and tokensBySlug = examplePrices
       and TONCOIN = exampleTONCOIN] h
  obtain rows where
    "sortTransactions exampleTONCOIN examplePrices (Some exampleTransfers) = Inr (Some rows)"
    and "length rows = length exampleTransfers" and "distinct (map index rows)"
    and "\<forall>r \<in> set rows. index r < length exampleTransfers
            \<and> ApiDappTransfer.truncate r = exampleTransfers ! index r"
    by blast
  moreover from this(1) have "rows = exampleRows"
    by (simp add: example_sorted)
  ultimately have "length exampleRows = length exampleTransfers"
    and "distinct (map index exampleRows)"
    and "map ApiDappTransfer.truncate exampleRows
       = map (\<lambda>r. exampleTransfers ! index r) exampleRows"
    by simp_all
  then show ?thesis
    using h example_sorted example_rows_index by blast
qed

text \<open>
  C4, as stated, fails: the output need not be in descending order of \<open>sortingCost\<close>. The
  token \<open>Z\<close> has price 0, and a transfer of \<open>10^309\<close> of its units has a decimal value
  beyond the range of a double: the amount converts to \<^verbatim>\<open>Infinity\<close>, the product with
  the price 0 is \<^verbatim>\<open>NaN\<close>, and so is the cost. The comparator returns \<^verbatim>\<open>NaN\<close> on every
  pair with that row, the sort takes it for a tie, and the three rows keep their input
  order: the row that costs 5 stays in front of the row that costs 10.
\<close>

theorem sorted_descending_counterexample:
  "examplePrices (slug exampleTONCOIN) \<noteq> None
   \<and> getTransactionCostForSorting exampleTONCOIN examplePrices unpricedRequest = Inr NaN
   \<and> sortTransactions exampleTONCOIN examplePrices
        (Some [oneCoinRequest, unpricedRequest, twoCoinRequest])
       = Inr (Some [sortedRow oneCoinRequest 0 (Finite 5),
                    sortedRow unpricedRequest 1 NaN,
                    sortedRow twoCoinRequest 2 (Finite 10)])
   \<and> fless (Finite 5) (Finite 10)"
  by (simp add: example_defs eval_defs)

text \<open>
  C4, amended. For a list that is present (and on which the call returns), none of whose
  requests has the cost \<^verbatim>\<open>NaN\<close>, the output rows are in descending order of
  \<open>sortingCost\<close>, and two rows of equal \<open>sortingCost\<close> stand in the order of their source
  requests in the input list: the row that comes first has the smaller index, and the index
  of a row is the input position of its request.
\<close>

theorem sorted_by_cost_descending_stable:
  assumes "ts = [] \<or> tokensBySlug (slug TONCOIN) \<noteq> None"
    and "\<forall>t \<in> set ts. getTransactionCostForSorting TONCOIN tokensBySlug t \<noteq> Inr NaN"
  shows "\<exists>rows. sortTransactions TONCOIN tokensBySlug (Some ts) = Inr (Some rows)
    \<and> (\<forall>r \<in> set rows.
          index r < length ts \<and> ApiDappTransfer.truncate r = ts ! index r
          \<and> getTransactionCostForSorting TONCOIN tokensBySlug (ts ! index r)
              = Inr (sortingCost r))
    \<and> (\<forall>i j. i < j \<and> j < length rows \<longrightarrow>
          fle (sortingCost (rows ! j)) (sortingCost (rows ! i))
          \<and> (sortingCost (rows ! i) = sortingCost (rows ! j) \<longrightarrow>
                index (rows ! i) < index (rows ! j)))"
proof -
  from assms(1) sortTransactions_present [of ts tokensBySlug TONCOIN] obtain mapped where
    m: "mapRows TONCOIN tokensBySlug 0 ts = Inr mapped" and
    s: "sortTransactions TONCOIN tokensBySlug (Some ts)
          = Inr (Some (arraySort compareRows mapped))"
    by blast
  let ?rows = "arraySort compareRows mapped"
  have src: "\<forall>r \<in> set ?rows.
      index r < length ts \<and> ApiDappTransfer.truncate r = ts ! index r
      \<and> getTransactionCostForSorting TONCOIN tokensBySlug (ts ! index r)
          = Inr (sortingCost r)"
    using mapRows_row [OF m] by (simp add: set_arraySort)
  have sorted: "sorted_wrt rowBefore ?rows"
    and num: "\<forall>r \<in> set ?rows. numericRow r"
    using sorted_rows_in_order [OF m assms(2)] by blast+
  have "fle (sortingCost (?rows ! j)) (sortingCost (?rows ! i))
      \<and> (sortingCost (?rows ! i) = sortingCost (?rows ! j) \<longrightarrow>
            index (?rows ! i) < index (?rows ! j))"
    if "i < j \<and> j < length ?rows" for i j
  proof -
    have "rowBefore (?rows ! i) (?rows ! j)"
      using sorted that by (simp add: sorted_wrt_iff_nth_less)
    moreover have "numericRow (?rows ! i)"
      using num that by simp
    ultimately show ?thesis
      using rowBefore_D by blast
  qed
  with src s show ?thesis
    by blast
qed

theorem sorted_by_cost_descending_stable_witness:
  "(exampleTransfers = [] \<or> examplePrices (slug exampleTONCOIN) \<noteq> None)
   \<and> map (getTransactionCostForSorting exampleTONCOIN examplePrices) exampleTransfers
       = [Inr (Finite 105), Inr (Finite 500), Inr (Finite 1000000000), Inr (Finite 500)]
   \<and> sortTransactions exampleTONCOIN examplePrices (Some exampleTransfers)
       = Inr (Some exampleRows)
   \<and> map sortingCost exampleRows
       = [Finite 1000000000, Finite 500, Finite 500, Finite 105]
   \<and> map index exampleRows = [2, 1, 3, 0]
   \<and> fle (sortingCost (exampleRows ! 1)) (sortingCost (exampleRows ! 0))
   \<and> sortingCost (exampleRows ! 1) = sortingCost (exampleRows ! 2)
   \<and> index (exampleRows ! 1) < index (exampleRows ! 2)"
proof -
  have h: "exampleTransfers = [] \<or> examplePrices (slug exampleTONCOIN) \<noteq> None"
    using example_native_entry by simp
  have costs:
    "map (getTransactionCostForSorting exampleTONCOIN examplePrices) exampleTransfers
       = [Inr (Finite 105), Inr (Finite 500), Inr (Finite 1000000000), Inr (Finite 500)]"
    by (simp add: exampleTransfers_def example_costs)
  have n: "\<forall>t \<in> set exampleTransfers.
      getTransactionCostForSorting exampleTONCOIN examplePrices t \<noteq> Inr NaN"
    by (simp add: exampleTransfers_def example_costs)
  from sorted_by_cost_descending_stable
    [where ts = exampleTransfers and tokensBySlug = examplePrices
       and TONCOIN = exampleTONCOIN, OF h n]
  obtain rows where
    "sortTransactions exampleTONCOIN examplePrices (Some exampleTransfers) = Inr (Some rows)"
    and "\<forall>i j. i < j \<and> j < length rows \<longrightarrow>
         fle (sortingCost (rows ! j)) (sortingCost (rows ! i))
         \<and> (sortingCost (rows ! i) = sortingCost (rows ! j) \<longrightarrow>
               index (rows ! i) < index (rows ! j))"
    by blast
  moreover from this(1) have "rows = exampleRows"
    by (simp add: example_sorted)
  ultimately have ord: "\<forall>i j. i < j \<and> j < length exampleRows \<longrightarrow>
         fle (sortingCost (exampleRows ! j)) (sortingCost (exampleRows ! i))
         \<and> (sortingCost (exampleRows ! i) = sortingCost (exampleRows ! j) \<longrightarrow>
               index (exampleRows ! i) < index (exampleRows ! j))"
    by simp
  have len: "length exampleRows = 4"
    by (simp add: exampleRows_def)
  have tie: "sortingCost (exampleRows ! 1) = sortingCost (exampleRows ! 2)"
    by (simp add: exampleRows_def sortedRow_def)
  have "fle (sortingCost (exampleRows ! 1)) (sortingCost (exampleRows ! 0))"
    using ord len by simp
  moreover have "index (exampleRows ! 1) < index (exampleRows ! 2)"
    using ord len tie by simp
  ultimately show ?thesis
    using h costs tie example_sorted example_rows_index example_rows_cost by blast
qed

text \<open>
  C2, as stated, fails. The claim: every NFT request sorts before every request that is not
  an NFT transfer and whose valuation is below 1,000,000,000. Two inputs, both with amounts
  and prices that are not negative and the native coin at 5 USD.

  First, a request without payload that moves 100 coins (cost 500), a transfer of the
  token \<open>Z\<close> whose cost is \<^verbatim>\<open>NaN\<close>, and an NFT transfer (cost 1,000,000,000), in this
  order. The comparator returns \<^verbatim>\<open>NaN\<close> on every pair with the second row, the sort takes
  it for a tie, and the rows keep their input order: the NFT transfer is last.

  Second, a request without payload that moves 199,999,999.999999999 coins, worth
  999,999,999.999999995 USD, followed by an NFT transfer. The computed cost of the first is
  1,000,000,000, a tie with the NFT transfer, and the two rows keep their input order.
\<close>

theorem nft_first_counterexample:
  "isNftTransferPayload (payload nftRequest)
   \<and> \<not> isNftTransferPayload (payload nativeRequest)
   \<and> getTransactionCostForSorting exampleTONCOIN examplePrices nativeRequest
       = Inr (Finite 500)
   \<and> fless (Finite 500) NFT_FAKE_COST_USD
   \<and> sortTransactions exampleTONCOIN examplePrices
        (Some [nativeRequest, unpricedRequest, nftRequest])
       = Inr (Some [sortedRow nativeRequest 0 (Finite 500),
                    sortedRow unpricedRequest 1 NaN,
                    sortedRow nftRequest 2 (Finite 1000000000)])
   \<and> \<not> isNftTransferPayload (payload nearFloorRequest)
   \<and> (5 * (199999999999999999 / 10 ^ 9) :: rat) < 1000000000
   \<and> sortTransactions exampleTONCOIN examplePrices (Some [nearFloorRequest, nftRequest])
       = Inr (Some [sortedRow nearFloorRequest 0 (Finite 1000000000),
                    sortedRow nftRequest 1 (Finite 1000000000)])"
proof -
  have "getTransactionCostForSorting exampleTONCOIN examplePrices unpricedRequest = Inr NaN"
    by (simp add: example_defs eval_defs)
  then have "sortTransactions exampleTONCOIN examplePrices
        (Some [nativeRequest, unpricedRequest, nftRequest])
       = Inr (Some [sortedRow nativeRequest 0 (Finite 500),
                    sortedRow unpricedRequest 1 NaN,
                    sortedRow nftRequest 2 (Finite 1000000000)])"
    by (simp add: sortTransactions_def example_costs compareRows_def sortedRow_def
        sortCompare_def fsub_def fneg_def isNaN_def)
  moreover have
    "sortTransactions exampleTONCOIN examplePrices (Some [nearFloorRequest, nftRequest])
       = Inr (Some [sortedRow nearFloorRequest 0 (Finite 1000000000),
                    sortedRow nftRequest 1 (Finite 1000000000)])"
    by (simp add: sortTransactions_def example_costs near_floor_cost compareRows_def
        sortedRow_def sortCompare_def fsub_def fneg_def isNaN_def)
  moreover have "isNftTransferPayload (payload nftRequest)"
    "\<not> isNftTransferPayload (payload nativeRequest)"
    "\<not> isNftTransferPayload (payload nearFloorRequest)"
    by (simp_all add: example_defs)
  moreover have "fless (Finite 500) NFT_FAKE_COST_USD"
    "(5 * (199999999999999999 / 10 ^ 9) :: rat) < 1000000000"
    by (simp_all add: NFT_FAKE_COST_USD_def)
  ultimately show ?thesis
    using example_costs(2) by simp
qed

text \<open>
  C2, amended. Let the native coin have its entry in the price table, and let no request of
  the list have the cost \<^verbatim>\<open>NaN\<close>. Then every NFT request whose native-coin valuation (the
  native price times the decimal value of \<open>displayedAmount + fullFee\<close>, as the code
  computes it) is not negative sorts before every request that is not an NFT transfer and
  whose computed cost is below 1,000,000,000: the row of the first (the row with its input
  position as index) stands at an earlier output position than the row of the second.
\<close>

theorem nft_before_cheaper_requests:
  assumes "tokensBySlug (slug TONCOIN) = Some ton"
    and "\<forall>t \<in> set ts. getTransactionCostForSorting TONCOIN tokensBySlug t \<noteq> Inr NaN"
  shows "\<exists>rows. sortTransactions TONCOIN tokensBySlug (Some ts) = Inr (Some rows)
    \<and> (\<forall>a b v. a < length ts \<and> b < length ts
          \<and> isNftTransferPayload (payload (ts ! a))
          \<and> fle (Finite 0)
              (fmul (priceUsd (quote ton))
                 (round64 (of_int (displayedAmount (ts ! a) + fullFee (ts ! a))
                    / 10 ^ decimals TONCOIN)))
          \<and> \<not> isNftTransferPayload (payload (ts ! b))
          \<and> getTransactionCostForSorting TONCOIN tokensBySlug (ts ! b) = Inr v
          \<and> fless v NFT_FAKE_COST_USD
        \<longrightarrow> (\<exists>i j. i < j \<and> j < length rows
              \<and> index (rows ! i) = a \<and> ApiDappTransfer.truncate (rows ! i) = ts ! a
              \<and> index (rows ! j) = b \<and> ApiDappTransfer.truncate (rows ! j) = ts ! b))"
proof -
  have present: "ts = [] \<or> tokensBySlug (slug TONCOIN) \<noteq> None"
    using assms(1) by simp
  from present sortTransactions_present [of ts tokensBySlug TONCOIN] obtain mapped where
    m: "mapRows TONCOIN tokensBySlug 0 ts = Inr mapped" and
    s: "sortTransactions TONCOIN tokensBySlug (Some ts)
          = Inr (Some (arraySort compareRows mapped))"
    by blast
  let ?rows = "arraySort compareRows mapped"
  have sorted: "sorted_wrt rowBefore ?rows"
    and num: "\<forall>r \<in> set ?rows. numericRow r"
    using sorted_rows_in_order [OF m assms(2)] by blast+
  have "\<exists>i j. i < j \<and> j < length ?rows
      \<and> index (?rows ! i) = a \<and> ApiDappTransfer.truncate (?rows ! i) = ts ! a
      \<and> index (?rows ! j) = b \<and> ApiDappTransfer.truncate (?rows ! j) = ts ! b"
    if a: "a < length ts" and b: "b < length ts"
      and nft: "isNftTransferPayload (payload (ts ! a))"
      and nonneg: "fle (Finite 0)
              (fmul (priceUsd (quote ton))
                 (round64 (of_int (displayedAmount (ts ! a) + fullFee (ts ! a))
                    / 10 ^ decimals TONCOIN)))"
      and v: "getTransactionCostForSorting TONCOIN tokensBySlug (ts ! b) = Inr v"
      and below: "fless v NFT_FAKE_COST_USD"
    for a b v
  proof -
    from sorted_row_of_request [OF m a] obtain i where
      i: "i < length ?rows" "index (?rows ! i) = a"
        "ApiDappTransfer.truncate (?rows ! i) = ts ! a" and
      ci: "getTransactionCostForSorting TONCOIN tokensBySlug (ts ! a)
            = Inr (sortingCost (?rows ! i))"
      by blast
    from sorted_row_of_request [OF m b] obtain j where
      j: "j < length ?rows" "index (?rows ! j) = b"
        "ApiDappTransfer.truncate (?rows ! j) = ts ! b" and
      cj: "getTransactionCostForSorting TONCOIN tokensBySlug (ts ! b)
            = Inr (sortingCost (?rows ! j))"
      by blast
    have "fle NFT_FAKE_COST_USD (sortingCost (?rows ! i))"
      using cost_nft [of tokensBySlug TONCOIN ton "ts ! a"] assms(1) nft ci
        fadd_floor [OF nonneg]
      by (simp add: NFT_FAKE_COST_USD_def)
    moreover have "sortingCost (?rows ! j) = v"
      using cj v by simp
    ultimately have less: "fless (sortingCost (?rows ! j)) (sortingCost (?rows ! i))"
      using below fless_fle_trans by blast
    have "i < j"
    proof (rule ccontr)
      assume "\<not> i < j"
      then consider "i = j" | "j < i" by linarith
      then show False
      proof cases
        case 1
        with less show False by simp
      next
        case 2
        then have "rowBefore (?rows ! j) (?rows ! i)"
          using sorted i(1) by (simp add: sorted_wrt_iff_nth_less)
        moreover have "numericRow (?rows ! j)"
          using num j(1) by simp
        ultimately have "fle (sortingCost (?rows ! i)) (sortingCost (?rows ! j))"
          by (rule rowBefore_D)
        then show False
          using less fle_not_fless by blast
      qed
    qed
    with i j show ?thesis by blast
  qed
  with s show ?thesis
    by blast
qed

theorem nft_before_cheaper_requests_witness:
  "examplePrices (slug exampleTONCOIN)
     = Some \<lparr>decimals = 9, symbol = ''TON'', quote = \<lparr>priceUsd = Finite 5\<rparr>\<rparr>
   \<and> map (getTransactionCostForSorting exampleTONCOIN examplePrices) exampleTransfers
       = [Inr (Finite 105), Inr (Finite 500), Inr (Finite 1000000000), Inr (Finite 500)]
   \<and> sortTransactions exampleTONCOIN examplePrices (Some exampleTransfers)
       = Inr (Some exampleRows)
   \<and> isNftTransferPayload (payload (exampleTransfers ! 2))
   \<and> fle (Finite 0)
       (fmul (Finite 5)
          (round64 (of_int (displayedAmount (exampleTransfers ! 2)
             + fullFee (exampleTransfers ! 2)) / 10 ^ decimals exampleTONCOIN)))
   \<and> \<not> isNftTransferPayload (payload (exampleTransfers ! 1))
   \<and> getTransactionCostForSorting exampleTONCOIN examplePrices (exampleTransfers ! 1)
       = Inr (Finite 500)
   \<and> fless (Finite 500) NFT_FAKE_COST_USD
   \<and> (\<exists>i j. i < j \<and> j < length exampleRows
         \<and> index (exampleRows ! i) = 2
         \<and> ApiDappTransfer.truncate (exampleRows ! i) = exampleTransfers ! 2
         \<and> index (exampleRows ! j) = 1
         \<and> ApiDappTransfer.truncate (exampleRows ! j) = exampleTransfers ! 1)"
proof -
  have h: "examplePrices (slug exampleTONCOIN)
     = Some \<lparr>decimals = 9, symbol = ''TON'', quote = \<lparr>priceUsd = Finite 5\<rparr>\<rparr>"
    by (simp add: example_defs)
  have costs:
    "map (getTransactionCostForSorting exampleTONCOIN examplePrices) exampleTransfers
       = [Inr (Finite 105), Inr (Finite 500), Inr (Finite 1000000000), Inr (Finite 500)]"
    by (simp add: exampleTransfers_def example_costs)
  have n: "\<forall>t \<in> set exampleTransfers.
      getTransactionCostForSorting exampleTONCOIN examplePrices t \<noteq> Inr NaN"
    by (simp add: exampleTransfers_def example_costs)
  have pre: "2 < length exampleTransfers" "1 < length exampleTransfers"
    "isNftTransferPayload (payload (exampleTransfers ! 2))"
    "fle (Finite 0)
       (fmul (Finite 5)
          (round64 (of_int (displayedAmount (exampleTransfers ! 2)
             + fullFee (exampleTransfers ! 2)) / 10 ^ decimals exampleTONCOIN)))"
    "\<not> isNftTransferPayload (payload (exampleTransfers ! 1))"
    "getTransactionCostForSorting exampleTONCOIN examplePrices (exampleTransfers ! 1)
       = Inr (Finite 500)"
    "fless (Finite 500) NFT_FAKE_COST_USD"
    by (simp_all add: example_defs eval_defs fle_def)
  from nft_before_cheaper_requests
    [where ts = exampleTransfers and tokensBySlug = examplePrices
       and TONCOIN = exampleTONCOIN, OF h n]
  obtain rows where
    r: "sortTransactions exampleTONCOIN examplePrices (Some exampleTransfers)
         = Inr (Some rows)"
    and imp: "\<forall>a b v. a < length exampleTransfers \<and> b < length exampleTransfers
          \<and> isNftTransferPayload (payload (exampleTransfers ! a))
          \<and> fle (Finite 0)
              (fmul (priceUsd (quote
                   \<lparr>decimals = 9, symbol = ''TON'', quote = \<lparr>priceUsd = Finite 5\<rparr>\<rparr>))
                 (round64 (of_int (displayedAmount (exampleTransfers ! a)
                    + fullFee (exampleTransfers ! a)) / 10 ^ decimals exampleTONCOIN)))
          \<and> \<not> isNftTransferPayload (payload (exampleTransfers ! b))
          \<and> getTransactionCostForSorting exampleTONCOIN examplePrices (exampleTransfers ! b)
              = Inr v
          \<and> fless v NFT_FAKE_COST_USD
        \<longrightarrow> (\<exists>i j. i < j \<and> j < length rows
              \<and> index (rows ! i) = a
              \<and> ApiDappTransfer.truncate (rows ! i) = exampleTransfers ! a
              \<and> index (rows ! j) = b
              \<and> ApiDappTransfer.truncate (rows ! j) = exampleTransfers ! b)"
    by blast
  from r have rows: "rows = exampleRows"
    by (simp add: example_sorted)
  have pre4: "fle (Finite 0)
       (fmul (priceUsd (quote
            \<lparr>decimals = 9, symbol = ''TON'', quote = \<lparr>priceUsd = Finite 5\<rparr>\<rparr>))
          (round64 (of_int (displayedAmount (exampleTransfers ! 2)
             + fullFee (exampleTransfers ! 2)) / 10 ^ decimals exampleTONCOIN)))"
    using pre(4) by simp
  from imp pre(1,2,3,5,6,7) pre4 have "\<exists>i j. i < j \<and> j < length rows
      \<and> index (rows ! i) = 2
      \<and> ApiDappTransfer.truncate (rows ! i) = exampleTransfers ! 2
      \<and> index (rows ! j) = 1
      \<and> ApiDappTransfer.truncate (rows ! j) = exampleTransfers ! 1"
    by blast
  with h costs pre rows example_sorted show ?thesis
    by blast
qed

text \<open>
  C9. For a list that is present (and on which the call returns), every output row agrees
  with its source request, the request at the row's index, on \<open>displayedAmount\<close>,
  \<open>fullFee\<close>, \<open>displayedToAddress\<close>, \<open>payload\<close> and \<open>isScam\<close>; the row is that request
  with \<open>index\<close> and \<open>sortingCost\<close> (the cost computed for the request) added and nothing
  else. The call does not modify the
  input list: the rows are in a new array, and every array that was in use before the call,
  the input among them, holds after the call what it held before.
\<close>

theorem rows_extend_requests_input_unchanged:
  assumes "r < used h" and "requestsOf (cells h r) = ts"
    and "ts = [] \<or> tokensBySlug (slug TONCOIN) \<noteq> None"
  shows "\<exists>r' h' rows.
    sortTransactionsOnHeap TONCOIN tokensBySlug (Some r) h = Inr (Some r', h')
    \<and> sortTransactions TONCOIN tokensBySlug (Some ts) = Inr (Some rows)
    \<and> used h \<le> r' \<and> cells h' r' = RowArray rows
    \<and> cells h' r = cells h r
    \<and> (\<forall>q. q < used h \<longrightarrow> cells h' q = cells h q)
    \<and> (\<forall>row \<in> set rows. index row < length ts
          \<and> row = sortedRow (ts ! index row) (index row) (sortingCost row)
          \<and> getTransactionCostForSorting TONCOIN tokensBySlug (ts ! index row)
              = Inr (sortingCost row)
          \<and> displayedAmount row = displayedAmount (ts ! index row)
          \<and> fullFee row = fullFee (ts ! index row)
          \<and> displayedToAddress row = displayedToAddress (ts ! index row)
          \<and> payload row = payload (ts ! index row)
          \<and> isScam row = isScam (ts ! index row))"
proof -
  from assms(3) sortTransactions_present [of ts tokensBySlug TONCOIN] obtain mapped where
    m: "mapRows TONCOIN tokensBySlug 0 ts = Inr mapped" and
    s: "sortTransactions TONCOIN tokensBySlug (Some ts)
          = Inr (Some (arraySort compareRows mapped))"
    by blast
  let ?rows = "arraySort compareRows mapped"
  let ?h1 = "h\<lparr>cells := (cells h)(used h := RowArray mapped), used := Suc (used h)\<rparr>"
  let ?h' = "?h1\<lparr>cells := (cells ?h1)(used h := RowArray ?rows)\<rparr>"
  have run: "sortTransactionsOnHeap TONCOIN tokensBySlug (Some r) h = Inr (Some (used h), ?h')"
    using m assms(2) by (simp add: sortTransactionsOnHeap_def allocate_def sortRowsInPlace_def)
  have out: "cells ?h' (used h) = RowArray ?rows"
    by simp
  have frame: "\<forall>q. q < used h \<longrightarrow> cells ?h' q = cells h q"
    by simp
  have inp: "cells ?h' r = cells h r"
    using assms(1) by simp
  have fields: "index row < length ts
      \<and> row = sortedRow (ts ! index row) (index row) (sortingCost row)
      \<and> getTransactionCostForSorting TONCOIN tokensBySlug (ts ! index row)
          = Inr (sortingCost row)
      \<and> displayedAmount row = displayedAmount (ts ! index row)
      \<and> fullFee row = fullFee (ts ! index row)
      \<and> displayedToAddress row = displayedToAddress (ts ! index row)
      \<and> payload row = payload (ts ! index row)
      \<and> isScam row = isScam (ts ! index row)"
    if "row \<in> set ?rows" for row
  proof -
    from that have mem: "row \<in> set mapped"
      by (simp add: set_arraySort)
    then have src: "index row < length ts"
      "ApiDappTransfer.truncate row = ts ! index row"
      using mapRows_source [OF m] by auto
    have eq: "row = sortedRow (ts ! index row) (index row) (sortingCost row)"
      using src(2) by (rule sortedRow_of_source)
    have "getTransactionCostForSorting TONCOIN tokensBySlug row = Inr (sortingCost row)"
      using m mem by (rule mapRows_cost)
    then have cost: "getTransactionCostForSorting TONCOIN tokensBySlug (ts ! index row)
        = Inr (sortingCost row)"
      using cost_truncate [of TONCOIN tokensBySlug row] src(2) by simp
    have "displayedAmount row = displayedAmount (ts ! index row)"
      "fullFee row = fullFee (ts ! index row)"
      "displayedToAddress row = displayedToAddress (ts ! index row)"
      "payload row = payload (ts ! index row)"
      "isScam row = isScam (ts ! index row)"
      by (simp_all add: src(2) [symmetric] truncate_fields)
    with src(1) eq cost show ?thesis
      by blast
  qed
  have fresh: "used h \<le> used h"
    by simp
  from run s fresh out inp frame fields show ?thesis
    by blast
qed

theorem rows_extend_requests_input_unchanged_witness:
  "1 < used exampleHeap
   \<and> requestsOf (cells exampleHeap 1) = exampleTransfers
   \<and> (exampleTransfers = [] \<or> examplePrices (slug exampleTONCOIN) \<noteq> None)
   \<and> (\<exists>h'. sortTransactionsOnHeap exampleTONCOIN examplePrices (Some 1) exampleHeap
              = Inr (Some 2, h')
         \<and> cells h' 2 = RowArray exampleRows
         \<and> cells h' 1 = TransferArray exampleTransfers)
   \<and> map (\<lambda>row. sortedRow (exampleTransfers ! index row) (index row) (sortingCost row))
        exampleRows = exampleRows
   \<and> map isScam exampleRows = [False, False, True, False]"
proof -
  have pre: "1 < used exampleHeap" "requestsOf (cells exampleHeap 1) = exampleTransfers"
    "exampleTransfers = [] \<or> examplePrices (slug exampleTONCOIN) \<noteq> None"
    using example_native_entry by (simp_all add: exampleHeap_def)
  from rows_extend_requests_input_unchanged
    [where r = 1 and h = exampleHeap and ts = exampleTransfers
       and tokensBySlug = examplePrices and TONCOIN = exampleTONCOIN] pre
  obtain r' h' rows where
    run: "sortTransactionsOnHeap exampleTONCOIN examplePrices (Some 1) exampleHeap
       = Inr (Some r', h')"
    and s: "sortTransactions exampleTONCOIN examplePrices (Some exampleTransfers)
       = Inr (Some rows)"
    and out: "cells h' r' = RowArray rows"
    and inp: "cells h' 1 = cells exampleHeap 1"
    and fields: "\<forall>row \<in> set rows.
         row = sortedRow (exampleTransfers ! index row) (index row) (sortingCost row)"
    by blast
  from s have rows: "rows = exampleRows"
    by (simp add: example_sorted)
  have "r' = 2"
    using run pre(2)
    by (auto simp add: sortTransactionsOnHeap_def allocate_def exampleHeap_def
        split: sum.splits)
  moreover have "cells exampleHeap 1 = TransferArray exampleTransfers"
    by (simp add: exampleHeap_def)
  moreover have
    "map (\<lambda>row. sortedRow (exampleTransfers ! index row) (index row) (sortingCost row))
        exampleRows = exampleRows"
    using fields rows by (simp add: map_idI)
  moreover have "map isScam exampleRows = [False, False, True, False]"
    by (simp add: example_defs sortedRow_def)
  ultimately show ?thesis
    using pre run out inp rows by auto
qed

section \<open>The amount text of a row\<close>

text \<open>
  C8. The amount text of a row is resolved as follows, \<open>native\<close> being the formatted
  native-coin amount. An NFT payload gives the literal text \<open>1 NFT\<close>, followed by the
  separator \<open> + \<close> and \<open>native\<close> exactly when \<open>displayedAmount\<close> is not zero. A token
  payload whose slug is in the price table gives the formatted token amount, followed by
  the separator and \<open>native\<close> under the same rule; should the formatted token amount be the
  empty text, \<open>native\<close> is the whole text, without separator. A token payload whose slug
  is not in the table, and a request without payload, give \<open>native\<close> alone, without
  separator.
\<close>

theorem display_amount_resolution:
  "(let native = formatCurrency (toDecimal (displayedAmount transaction) None) (symbol TONCOIN);
        shown = amountText TONCOIN toDecimal formatCurrency tokensBySlug transaction
    in (isNftTransferPayload (payload transaction) \<longrightarrow>
          shown = (if displayedAmount transaction \<noteq> 0 then ''1 NFT'' @ '' + '' @ native
                   else ''1 NFT''))
     \<and> (\<forall>tokenSlug amount token.
          payload transaction = TokenTransfer tokenSlug amount
          \<and> tokensBySlug tokenSlug = Some token \<longrightarrow>
          (let tokenText =
             formatCurrency (toDecimal amount (Some (decimals token))) (symbol token)
           in shown = (if tokenText = '''' then native
                       else if displayedAmount transaction \<noteq> 0
                         then tokenText @ '' + '' @ native
                       else tokenText)))
     \<and> (\<forall>tokenSlug amount.
          payload transaction = TokenTransfer tokenSlug amount
          \<and> tokensBySlug tokenSlug = None \<longrightarrow> shown = native)
     \<and> (payload transaction = NoPayload \<longrightarrow> shown = native))"
  by (cases "payload transaction") (auto simp add: amountText_def Let_def)

theorem display_amount_resolution_witness:
  "isNftTransferPayload (payload nftRequest)
   \<and> amountText exampleTONCOIN exampleToDecimal exampleFormatCurrency examplePrices nftRequest
       = ''1 NFT''
   \<and> isNftTransferPayload (payload nftWithAmountRequest)
   \<and> amountText exampleTONCOIN exampleToDecimal exampleFormatCurrency examplePrices
        nftWithAmountRequest = ''1 NFT + 100 TON''
   \<and> payload tokenRequest = TokenTransfer ''X'' 5000
   \<and> examplePrices ''X'' = Some \<lparr>decimals = 2, symbol = ''X'', quote = \<lparr>priceUsd = Finite 2\<rparr>\<rparr>
   \<and> amountText exampleTONCOIN exampleToDecimal exampleFormatCurrency examplePrices tokenRequest
       = ''50 X''
   \<and> payload unknownTokenRequest = TokenTransfer ''Y'' 700
   \<and> examplePrices ''Y'' = None
   \<and> amountText exampleTONCOIN exampleToDecimal exampleFormatCurrency examplePrices
        unknownTokenRequest = ''1 TON''
   \<and> payload nativeRequest = NoPayload
   \<and> amountText exampleTONCOIN exampleToDecimal exampleFormatCurrency examplePrices
        nativeRequest = ''100 TON''"
proof -
  note inst = display_amount_resolution
    [where toDecimal = exampleToDecimal and TONCOIN = exampleTONCOIN
       and formatCurrency = exampleFormatCurrency and tokensBySlug = examplePrices]
  have "isNftTransferPayload (payload nftRequest)"
    and "amountText exampleTONCOIN exampleToDecimal exampleFormatCurrency examplePrices
      nftRequest = ''1 NFT''"
    using inst [where transaction = nftRequest] by (simp_all add: example_defs display_defs)
  moreover have "isNftTransferPayload (payload nftWithAmountRequest)"
    and "amountText exampleTONCOIN exampleToDecimal exampleFormatCurrency examplePrices
      nftWithAmountRequest = ''1 NFT + 100 TON''"
    using inst [where transaction = nftWithAmountRequest]
    by (simp_all add: example_defs display_defs)
  moreover have "payload tokenRequest = TokenTransfer ''X'' 5000"
    and "examplePrices ''X'' = Some \<lparr>decimals = 2, symbol = ''X'', quote = \<lparr>priceUsd = Finite 2\<rparr>\<rparr>"
    and "amountText exampleTONCOIN exampleToDecimal exampleFormatCurrency examplePrices
      tokenRequest = ''50 X''"
    using inst [where transaction = tokenRequest] by (simp_all add: example_defs display_defs)
  moreover have "payload unknownTokenRequest = TokenTransfer ''Y'' 700"
    and "examplePrices ''Y'' = None"
    and "amountText exampleTONCOIN exampleToDecimal exampleFormatCurrency examplePrices
      unknownTokenRequest = ''1 TON''"
    using inst [where transaction = unknownTokenRequest]
    by (simp_all add: example_defs display_defs)
  moreover have "payload nativeRequest = NoPayload"
    and "amountText exampleTONCOIN exampleToDecimal exampleFormatCurrency examplePrices
      nativeRequest = ''100 TON''"
    using inst [where transaction = nativeRequest] by (simp_all add: example_defs display_defs)
  ultimately show ?thesis
    by blast
qed

text \<open>
  C10. Whenever the payload gives no text (a request without payload, or a token payload
  whose slug is not in the price table), the amount text is the formatted native-coin
  amount, also when \<open>displayedAmount\<close> is zero. So the amount text of a row is never empty,
  as long as the formatted native-coin amount is not the empty text.
\<close>

theorem amount_text_never_empty:
  "(let native = formatCurrency (toDecimal (displayedAmount transaction) None) (symbol TONCOIN);
        shown = amountText TONCOIN toDecimal formatCurrency tokensBySlug transaction
    in ((payload transaction = NoPayload
          \<or> (\<exists>tokenSlug amount. payload transaction = TokenTransfer tokenSlug amount
                \<and> tokensBySlug tokenSlug = None)) \<longrightarrow> shown = native)
     \<and> (native \<noteq> '''' \<longrightarrow> shown \<noteq> ''''))"
  by (cases "payload transaction") (auto simp add: amountText_def Let_def split: option.split)

theorem amount_text_never_empty_witness:
  "payload zeroRequest = NoPayload
   \<and> displayedAmount zeroRequest = 0
   \<and> exampleFormatCurrency (exampleToDecimal (displayedAmount zeroRequest) None)
        (symbol exampleTONCOIN) = ''0 TON''
   \<and> amountText exampleTONCOIN exampleToDecimal exampleFormatCurrency examplePrices zeroRequest
       = ''0 TON''
   \<and> amountText exampleTONCOIN exampleToDecimal exampleFormatCurrency examplePrices zeroRequest
       \<noteq> ''''"
  using amount_text_never_empty
    [where toDecimal = exampleToDecimal and TONCOIN = exampleTONCOIN
       and formatCurrency = exampleFormatCurrency and tokensBySlug = examplePrices
       and transaction = zeroRequest]
  by (simp add: example_defs display_defs)

end

